theory Spec2Isabelle
  imports
    Complex_Main
    "HOL-Library.AList"
    "HOL-Library.Char_ord"
    "HOL-Library.List_Lexorder"
    "HOL-Library.Product_Lexorder"
begin

section \<open>The questionnaire table of \<^verbatim>\<open>hw_5.py\<close>\<close>

text \<open>
  \<^verbatim>\<open>QuestionnaireAnalysis\<close> keeps one pandas DataFrame in \<^verbatim>\<open>self.data\<close>. The model
  of a DataFrame is a list of named columns with their dtype and a list of rows, each
  row carrying its index label. A cell is a missing value (\<^verbatim>\<open>None\<close>, \<^verbatim>\<open>NaN\<close> and
  \<^verbatim>\<open>pd.NA\<close> alike: all three satisfy \<^verbatim>\<open>isnull\<close>), a number or a string.

  Numbers are exact rationals and the arithmetic of the model is exact, where the code
  computes in double precision: the model and the code agree on sums and on the floor
  of a mean for whole numbers of moderate size, and the properties about computed
  values are stated for those. The IEEE infinities and \<^verbatim>\<open>NaN\<close> as a number, and JSON
  booleans, arrays and objects as field values, are not part of the cell type: the
  properties speak of tables whose cells are missing, numbers or strings.

  An exception is a value of \<open>error\<close>. A method of the class takes the stored table and
  returns its outcome (the exception or the returned value) together with the stored
  table as the call leaves it, so that a write made before an exception stays visible.
\<close>

datatype cell = NA | Num rat | Str string

datatype dtype = ObjectD | NumericD | UInt8D

datatype error = KeyError | TypeError | ValueError | CastError

type_synonym row = "string \<Rightarrow> cell"

record frame =
  columns :: "(string \<times> dtype) list"
  rows :: "(nat \<times> row) list"

type_synonym parser = "string \<Rightarrow> rat option"

definition qs :: "string list" where
  "qs = [''q1'', ''q2'', ''q3'', ''q4'', ''q5'']"

subsection \<open>The pandas and numpy operations the class calls\<close>

fun isnull :: "cell \<Rightarrow> bool" where
  "isnull NA = True"
| "isnull (Num x) = False"
| "isnull (Str s) = False"

definition has_col :: "frame \<Rightarrow> string \<Rightarrow> bool" where
  "has_col t c = (c \<in> set (map fst (columns t)))"

definition col_values :: "string \<Rightarrow> frame \<Rightarrow> cell list" where
  "col_values c t = map (\<lambda>(i, r). r c) (rows t)"

text \<open>
  \<^verbatim>\<open>df[c] = values\<close>: an existing column is overwritten in place, a new one is appended;
  the row count does not change.
\<close>

definition set_col :: "string \<Rightarrow> dtype \<Rightarrow> cell list \<Rightarrow> frame \<Rightarrow> frame" where
  "set_col c d vs t =
     t\<lparr>columns := AList.update c d (columns t),
       rows := map (\<lambda>((i, r), v). (i, r(c := v))) (zip (rows t) vs)\<rparr>"

text \<open>
  \<^verbatim>\<open>pd.to_numeric(series, errors='coerce')\<close>. How pandas reads a string as a number is a
  parameter \<open>pf\<close> of the model (\<open>None\<close>: the string is not a number); every theorem holds
  for every such reading.
\<close>

fun to_numeric :: "parser \<Rightarrow> cell \<Rightarrow> cell" where
  "to_numeric pf NA = NA"
| "to_numeric pf (Num x) = Num x"
| "to_numeric pf (Str s) = (case pf s of None \<Rightarrow> NA | Some x \<Rightarrow> Num x)"

text \<open>The numbers of a numeric Series, missing entries dropped (\<^verbatim>\<open>dropna\<close>, \<^verbatim>\<open>skipna\<close>).\<close>

fun num_values :: "cell list \<Rightarrow> rat list" where
  "num_values [] = []"
| "num_values (Num x # cs) = x # num_values cs"
| "num_values (c # cs) = num_values cs"

fun is_str :: "cell \<Rightarrow> bool" where
  "is_str (Str s) = True"
| "is_str c = False"

text \<open>
  \<^verbatim>\<open>Series.mean(skipna=True)\<close>: missing entries are skipped, the mean of nothing is
  \<^verbatim>\<open>NaN\<close>, and summing a string with a number raises \<^verbatim>\<open>TypeError\<close>. The mean of the
  model is the exact one; the code's is the double nearest to it when the sum is exact.
\<close>

definition mean_cell :: "rat list \<Rightarrow> cell" where
  "mean_cell xs = (if xs = [] then NA else Num (sum_list xs / of_nat (length xs)))"

definition series_mean :: "cell list \<Rightarrow> error + cell" where
  "series_mean cs =
     (if list_ex is_str cs then Inl TypeError else Inr (mean_cell (num_values cs)))"

text \<open>\<^verbatim>\<open>np.arange(start, stop, step)\<close> for a positive step.\<close>

function arange :: "int \<Rightarrow> int \<Rightarrow> int \<Rightarrow> int list" where
  "arange start stop step =
     (if 0 < step \<and> start < stop then start # arange (start + step) stop step else [])"
  by pat_completeness auto
termination
  by (relation "measure (\<lambda>(start, stop, step). nat (stop - start))") auto

text \<open>
  \<^verbatim>\<open>np.histogram(xs, bins=edges)\<close>: every bin is closed on the left and open on the right,
  but the last one, which is closed on both sides.
\<close>

fun histogram :: "rat list \<Rightarrow> rat list \<Rightarrow> nat list" where
  "histogram xs [a, b] = [length (filter (\<lambda>x. a \<le> x \<and> x \<le> b) xs)]"
| "histogram xs (a # b # es) =
     length (filter (\<lambda>x. a \<le> x \<and> x < b) xs) # histogram xs (b # es)"
| "histogram xs es = []"

text \<open>
  \<^verbatim>\<open>re.match\<close> for a pattern that is a sequence of one-character classes, each taken
  once or one or more times: the match starts at the first character and need not
  reach the end of the string.
\<close>

datatype cclass = Lit char | NotLit char

datatype quant = Once | OneOrMore

fun cmatch :: "cclass \<Rightarrow> char \<Rightarrow> bool" where
  "cmatch (Lit a) x = (x = a)"
| "cmatch (NotLit a) x = (x \<noteq> a)"

fun re_match :: "(cclass \<times> quant) list \<Rightarrow> string \<Rightarrow> bool" where
  "re_match [] s = True"
| "re_match ((c, Once) # p) [] = False"
| "re_match ((c, Once) # p) (x # xs) = (cmatch c x \<and> re_match p xs)"
| "re_match ((c, OneOrMore) # p) [] = False"
| "re_match ((c, OneOrMore) # p) (x # xs) =
     (cmatch c x \<and> (re_match ((c, OneOrMore) # p) xs \<or> re_match p xs))"

text \<open>The pattern \<^verbatim>\<open>[^@]+@[^@]+\.[^@]+\<close>.\<close>

definition email_re :: "(cclass \<times> quant) list" where
  "email_re =
     [(NotLit CHR ''@'', OneOrMore), (Lit CHR ''@'', Once), (NotLit CHR ''@'', OneOrMore),
      (Lit CHR ''.'', Once), (NotLit CHR ''@'', OneOrMore)]"

text \<open>\<^verbatim>\<open>df[mask]\<close> and \<^verbatim>\<open>reset_index(drop=True)\<close>.\<close>

definition boolean_index :: "bool list \<Rightarrow> frame \<Rightarrow> frame" where
  "boolean_index keep t = t\<lparr>rows := map snd (filter fst (zip keep (rows t)))\<rparr>"

definition reset_index :: "frame \<Rightarrow> frame" where
  "reset_index t = t\<lparr>rows := zip [0..<length (rows t)] (map snd (rows t))\<rparr>"

text \<open>\<^verbatim>\<open>df.at[idx, col] = v\<close>: the cell of column \<open>col\<close> in the row labelled \<open>idx\<close>.\<close>

definition set_at :: "nat \<Rightarrow> string \<Rightarrow> cell \<Rightarrow> frame \<Rightarrow> frame" where
  "set_at idx col v t =
     t\<lparr>rows := map (\<lambda>(i, r). if i = idx then (i, r(col := v)) else (i, r)) (rows t)\<rparr>"

text \<open>\<^verbatim>\<open>apply\<close> of a function that may raise: the first exception ends the call.\<close>

fun apply_each :: "('a \<Rightarrow> error + cell) \<Rightarrow> 'a list \<Rightarrow> error + cell list" where
  "apply_each f [] = Inr []"
| "apply_each f (x # xs) =
     (case f x of
        Inl e \<Rightarrow> Inl e
      | Inr v \<Rightarrow> (case apply_each f xs of Inl e \<Rightarrow> Inl e | Inr vs \<Rightarrow> Inr (v # vs)))"

text \<open>
  \<^verbatim>\<open>astype("UInt8")\<close>: a missing entry stays missing, a whole number from 0 to 255 stays
  as it is, and anything else cannot be cast.
\<close>

fun uint8_cell :: "cell \<Rightarrow> error + cell" where
  "uint8_cell NA = Inr NA"
| "uint8_cell (Num x) =
     (if x = of_int \<lfloor>x\<rfloor> \<and> 0 \<le> x \<and> x \<le> 255 then Inr (Num x) else Inl CastError)"
| "uint8_cell (Str s) = Inl CastError"

definition astype_uint8 :: "cell list \<Rightarrow> error + cell list" where
  "astype_uint8 cs = apply_each uint8_cell cs"

subsection \<open>Loading\<close>

text \<open>
  \<^verbatim>\<open>read_data\<close>, from the parsed JSON on: \<^verbatim>\<open>pd.DataFrame\<close> of a list of objects. The
  columns are the keys in the order they first appear; a key that an object lacks is a
  missing value; a column holding numbers and missing values only, with a number among
  them, is numeric, any other is of dtype object; the rows are labelled 0, 1, ...
\<close>

definition record_row :: "(string \<times> cell) list \<Rightarrow> row" where
  "record_row kvs = (\<lambda>c. case map_of kvs c of None \<Rightarrow> NA | Some v \<Rightarrow> v)"

definition infer_dtype :: "cell list \<Rightarrow> dtype" where
  "infer_dtype cs = (if \<not> list_ex is_str cs \<and> num_values cs \<noteq> [] then NumericD else ObjectD)"

definition read_data :: "(string \<times> cell) list list \<Rightarrow> frame" where
  "read_data recs =
     (let rs = map record_row recs;
          names = rev (remdups (rev (concat (map (map fst) recs))))
      in \<lparr>columns = map (\<lambda>c. (c, infer_dtype (map (\<lambda>r. r c) rs))) names,
          rows = zip [0..<length rs] rs\<rparr>)"

subsection \<open>The methods of \<^verbatim>\<open>QuestionnaireAnalysis\<close>\<close>

text \<open>
  \<^verbatim>\<open>show_age_distrib\<close>: the coerced ages are written back to the stored table, the
  missing ones are dropped, and the rest is counted in the bins 0, 10, ..., 100. The
  plot is an effect outside the model.
\<close>

definition show_age_distrib :: "parser \<Rightarrow> frame \<Rightarrow> (error + nat list \<times> int list) \<times> frame" where
  "show_age_distrib pf t =
     (if \<not> has_col t ''age'' then (Inl KeyError, t)
      else
        let t1 = set_col ''age'' NumericD (map (to_numeric pf) (col_values ''age'' t)) t;
            ages = num_values (col_values ''age'' t1);
            bins = arange 0 101 10;
            hist = histogram ages (map of_int bins)
        in (Inr (hist, bins), t1))"

text \<open>\<^verbatim>\<open>remove_rows_without_mail\<close> and its local function \<^verbatim>\<open>is_valid_email\<close>.\<close>

fun is_valid_email :: "cell \<Rightarrow> bool" where
  "is_valid_email (Str s) = re_match email_re s"
| "is_valid_email c = False"

definition remove_rows_without_mail :: "frame \<Rightarrow> (error + frame) \<times> frame" where
  "remove_rows_without_mail t =
     (if \<not> has_col t ''email'' then (Inl KeyError, t)
      else
        let valid_email_mask = map is_valid_email (col_values ''email'' t);
            cleaned_data = reset_index (boolean_index valid_email_mask t)
        in (Inr cleaned_data, t))"

text \<open>
  \<^verbatim>\<open>fill_na_with_mean\<close>. The loop runs over the rows of the copy as they were when it
  started; \<^verbatim>\<open>row.isnull().any()\<close> looks at every column of the row; the mean is the one
  of the row's five question cells.
\<close>

definition row_has_null :: "frame \<Rightarrow> row \<Rightarrow> bool" where
  "row_has_null df r = list_ex (\<lambda>c. isnull (r c)) (map fst (columns df))"

definition row_questions_mean :: "frame \<Rightarrow> row \<Rightarrow> error + cell" where
  "row_questions_mean df r =
     (if list_all (has_col df) qs then series_mean (map r qs) else Inl KeyError)"

fun fill_questions :: "string list \<Rightarrow> nat \<Rightarrow> row \<Rightarrow> frame \<Rightarrow> error + frame" where
  "fill_questions [] idx r df = Inr df"
| "fill_questions (col # cols) idx r df =
     (if \<not> has_col df col then Inl KeyError
      else if isnull (r col) then
        (case row_questions_mean df r of
           Inl e \<Rightarrow> Inl e
         | Inr mean_value \<Rightarrow> fill_questions cols idx r (set_at idx col mean_value df))
      else fill_questions cols idx r df)"

fun fill_loop :: "(nat \<times> row) list \<Rightarrow> frame \<Rightarrow> nat list \<Rightarrow> error + frame \<times> nat list" where
  "fill_loop [] df row_indices = Inr (df, row_indices)"
| "fill_loop ((idx, r) # rest) df row_indices =
     (if row_has_null df r then
        (case fill_questions qs idx r df of
           Inl e \<Rightarrow> Inl e
         | Inr df' \<Rightarrow> fill_loop rest df' (row_indices @ [idx]))
      else fill_loop rest df row_indices)"

definition fill_na_with_mean :: "frame \<Rightarrow> (error + frame \<times> nat list) \<times> frame" where
  "fill_na_with_mean t = (let data_filled = t in (fill_loop (rows data_filled) data_filled [], t))"

text \<open>
  \<^verbatim>\<open>score_subjects\<close>. The loop coerces the five question columns of the stored table
  one after the other; \<^verbatim>\<open>calculate_score\<close> gets the five question cells of a row, and
  \<^verbatim>\<open>int\<close> of a \<^verbatim>\<open>NaN\<close> mean raises \<^verbatim>\<open>ValueError\<close>. On a table without rows pandas
  tries the function on a row of five missing values: if that raises, \<^verbatim>\<open>apply\<close>
  gives back the empty five-column table, which cannot be assigned to one column.
  The method returns the stored table itself.
\<close>

fun coerce_cols :: "parser \<Rightarrow> string list \<Rightarrow> frame \<Rightarrow> (error + unit) \<times> frame" where
  "coerce_cols pf [] t = (Inr (), t)"
| "coerce_cols pf (col # cols) t =
     (if \<not> has_col t col then (Inl KeyError, t)
      else coerce_cols pf cols
             (set_col col NumericD (map (to_numeric pf) (col_values col t)) t))"

definition calculate_score :: "int \<Rightarrow> cell list \<Rightarrow> error + cell" where
  "calculate_score maximal_nans_per_sub r =
     (if int (length (filter isnull r)) > maximal_nans_per_sub then Inr NA
      else (case series_mean r of
              Inl e \<Rightarrow> Inl e
            | Inr NA \<Rightarrow> Inl ValueError
            | Inr (Num m) \<Rightarrow> Inr (Num (of_int \<lfloor>m\<rfloor>))
            | Inr (Str s) \<Rightarrow> Inl TypeError))"

definition apply_rows :: "(cell list \<Rightarrow> error + cell) \<Rightarrow> cell list list \<Rightarrow> error + cell list" where
  "apply_rows f rs =
     (if rs = [] then
        (case f (replicate (length qs) NA) of Inl e \<Rightarrow> Inl ValueError | Inr v \<Rightarrow> Inr [])
      else apply_each f rs)"

definition score_subjects :: "parser \<Rightarrow> int \<Rightarrow> frame \<Rightarrow> (error + frame) \<times> frame" where
  "score_subjects pf maximal_nans_per_sub t =
     (case coerce_cols pf qs t of
        (Inl e, t1) \<Rightarrow> (Inl e, t1)
      | (Inr u, t1) \<Rightarrow>
          (case apply_rows (calculate_score maximal_nans_per_sub)
                  (map (\<lambda>(i, r). map r qs) (rows t1)) of
             Inl e \<Rightarrow> (Inl e, t1)
           | Inr scores \<Rightarrow>
               (case astype_uint8 scores of
                  Inl e \<Rightarrow> (Inl e, t1)
                | Inr sc \<Rightarrow> (let t2 = set_col ''score'' UInt8D sc t1 in (Inr t2, t2)))))"

text \<open>
  \<^verbatim>\<open>correlate_gender_age\<close>. The comparison \<^verbatim>\<open>age >= 40\<close> is false for \<^verbatim>\<open>NaN\<close>.
  \<^verbatim>\<open>groupby\<close> leaves out the rows with a missing key and sorts the groups by key
  (numbers before strings); \<^verbatim>\<open>mean(numeric_only=True)\<close> keeps the columns of a numeric
  dtype only, so selecting a question column of dtype object raises \<^verbatim>\<open>KeyError\<close>.
  The result is the list of groups, each with its key and its five means.
\<close>

fun age_group_of :: "cell \<Rightarrow> error + cell" where
  "age_group_of (Num age) = Inr (Str (if 40 \<le> age then ''above_40'' else ''below_40''))"
| "age_group_of NA = Inr (Str ''below_40'')"
| "age_group_of (Str s) = Inl TypeError"

definition numeric_col :: "frame \<Rightarrow> string \<Rightarrow> bool" where
  "numeric_col t c =
     (map_of (columns t) c = Some NumericD \<or> map_of (columns t) c = Some UInt8D)"

definition group_key :: "row \<Rightarrow> cell \<times> cell" where
  "group_key r = (r ''gender'', r ''age_group'')"

fun key_rank :: "cell \<Rightarrow> nat \<times> rat \<times> string" where
  "key_rank (Num x) = (0, x, [])"
| "key_rank (Str s) = (1, 0, s)"
| "key_rank NA = (2, 0, [])"

definition grouped_rows :: "frame \<Rightarrow> row list" where
  "grouped_rows t =
     filter (\<lambda>r. \<not> isnull (r ''gender'') \<and> \<not> isnull (r ''age_group'')) (map snd (rows t))"

definition group_keys :: "frame \<Rightarrow> (cell \<times> cell) list" where
  "group_keys t =
     sort_key (\<lambda>(g, a). (key_rank g, key_rank a)) (remdups (map group_key (grouped_rows t)))"

definition group_means :: "frame \<Rightarrow> ((cell \<times> cell) \<times> cell list) list" where
  "group_means t =
     map (\<lambda>k. (k, map (\<lambda>q. mean_cell (num_values
                  (map (\<lambda>r. r q) (filter (\<lambda>r. group_key r = k) (grouped_rows t))))) qs))
       (group_keys t)"

definition correlate_gender_age ::
  "parser \<Rightarrow> frame \<Rightarrow> (error + ((cell \<times> cell) \<times> cell list) list) \<times> frame" where
  "correlate_gender_age pf t =
     (if \<not> has_col t ''age'' then (Inl KeyError, t)
      else
        let t1 = set_col ''age'' NumericD (map (to_numeric pf) (col_values ''age'' t)) t
        in (case apply_each age_group_of (col_values ''age'' t1) of
              Inl e \<Rightarrow> (Inl e, t1)
            | Inr groups \<Rightarrow>
                (let t2 = set_col ''age_group'' ObjectD groups t1
                 in if \<not> has_col t2 ''gender'' then (Inl KeyError, t2)
                    else if \<not> list_all (numeric_col t2) qs then (Inl KeyError, t2)
                    else (Inr (group_means t2), t2))))"



subsection \<open>Notions the properties are stated with\<close>

text \<open>The label that belongs to an age cell: \<open>above_40\<close> when its coerced value is a
  number of at least 40, \<open>below_40\<close> in every other case, a missing age included.\<close>

definition age_label :: "parser \<Rightarrow> cell \<Rightarrow> string" where
  "age_label pf c =
     (case to_numeric pf c of
        Num a \<Rightarrow> (if 40 \<le> a then ''above_40'' else ''below_40'')
      | _ \<Rightarrow> ''below_40'')"

text \<open>The stored table after the coerced ages are written back, and after the labels
  are written as well.\<close>

definition with_age :: "parser \<Rightarrow> frame \<Rightarrow> frame" where
  "with_age pf t = set_col ''age'' NumericD (map (to_numeric pf) (col_values ''age'' t)) t"

definition with_age_group :: "parser \<Rightarrow> frame \<Rightarrow> frame" where
  "with_age_group pf t =
     set_col ''age_group'' ObjectD
       (map (\<lambda>c. Str (age_label pf c)) (col_values ''age'' (with_age pf t))) (with_age pf t)"


text \<open>A row with the columns \<open>cs\<close> coerced to numbers, and the table with these columns
  coerced in every row.\<close>

definition coerced_row :: "parser \<Rightarrow> string list \<Rightarrow> row \<Rightarrow> row" where
  "coerced_row pf cs r = (\<lambda>c. if c \<in> set cs then to_numeric pf (r c) else r c)"

definition with_numeric :: "parser \<Rightarrow> string list \<Rightarrow> frame \<Rightarrow> frame" where
  "with_numeric pf cs t =
     t\<lparr>columns := fold (\<lambda>c. AList.update c NumericD) cs (columns t),
       rows := map (\<lambda>(i, r). (i, coerced_row pf cs r)) (rows t)\<rparr>"

text \<open>The five coerced answers of a row, how many of them are missing, the floor of the
  mean of the others, and the score the scoring rule gives the row with at most one
  missing answer allowed. A row fits when it is unscored or its score is from 0 to 255.\<close>

definition coerced_questions :: "parser \<Rightarrow> row \<Rightarrow> cell list" where
  "coerced_questions pf r = map (\<lambda>q. to_numeric pf (r q)) qs"

definition missing_count :: "cell list \<Rightarrow> nat" where
  "missing_count cs = length (filter isnull cs)"

definition floor_mean :: "cell list \<Rightarrow> int" where
  "floor_mean cs = \<lfloor>sum_list (num_values cs) / of_nat (length (num_values cs))\<rfloor>"

definition expected_score :: "parser \<Rightarrow> row \<Rightarrow> cell" where
  "expected_score pf r =
     (if 1 < missing_count (coerced_questions pf r) then NA
      else Num (of_int (floor_mean (coerced_questions pf r))))"

definition score_fits :: "parser \<Rightarrow> row \<Rightarrow> bool" where
  "score_fits pf r =
     (1 < missing_count (coerced_questions pf r)
      \<or> (0 \<le> floor_mean (coerced_questions pf r) \<and> floor_mean (coerced_questions pf r) \<le> 255))"

text \<open>The mean of the answers a row has, and the row with each missing answer replaced
  by that mean.\<close>

definition question_mean :: "row \<Rightarrow> cell" where
  "question_mean r = mean_cell (num_values (map r qs))"

definition filled_row :: "row \<Rightarrow> row" where
  "filled_row r = (\<lambda>c. if c \<in> set qs \<and> isnull (r c) then question_mean r else r c)"

text \<open>A row \<open>r'\<close> of the copy after the columns \<open>cols\<close> of the row \<open>r\<close> have been looked at.\<close>

definition fill_upd :: "string list \<Rightarrow> row \<Rightarrow> row \<Rightarrow> row" where
  "fill_upd cols r r' = (\<lambda>c. if c \<in> set cols \<and> isnull (r c) then question_mean r else r' c)"


text \<open>The code computes in double precision, the model with exact numbers. A cell is a
  whole answer when it is missing or a whole number of magnitude at most \<open>2\<^sup>5\<^sup>0\<close>: the
  sum of up to five such numbers is exact in double precision, and their mean, rounded
  to a double, has the floor of the exact mean. The properties about computed values
  are stated for such answers.\<close>

definition whole_cell :: "cell \<Rightarrow> bool" where
  "whole_cell c =
     (case c of NA \<Rightarrow> True | Num x \<Rightarrow> x = of_int \<lfloor>x\<rfloor> \<and> \<bar>x\<bar> \<le> 2 ^ 50 | Str s \<Rightarrow> False)"

definition whole_answers :: "parser \<Rightarrow> row \<Rightarrow> bool" where
  "whole_answers pf r = list_all whole_cell (coerced_questions pf r)"

text \<open>The exact mean of a list of numbers. A cell holds the mean of \<open>xs\<close> up to rounding
  when it is missing and \<open>xs\<close> is empty, or a number that differs from the exact mean by
  at most one rounding to double precision and is the exact mean when \<open>xs\<close> has one, two
  or four members (the exact mean of whole answers is then a double).\<close>

definition exact_mean :: "rat list \<Rightarrow> rat" where
  "exact_mean xs = sum_list xs / of_nat (length xs)"

definition rounded_mean :: "rat list \<Rightarrow> cell \<Rightarrow> bool" where
  "rounded_mean xs c =
     (case c of
        NA \<Rightarrow> xs = []
      | Num m \<Rightarrow> xs \<noteq> [] \<and> \<bar>m - exact_mean xs\<bar> \<le> \<bar>exact_mean xs\<bar> / 2 ^ 53
                 \<and> (length xs \<in> {1, 2, 4} \<longrightarrow> m = exact_mean xs)
      | Str s \<Rightarrow> False)"


subsection \<open>Sample tables\<close>

definition sample :: frame where
 "sample = read_data [
   [(''age'', Num 45), (''gender'', Str ''F''), (''email'', Str ''a@b.c''), (''q1'', Num 10), (''q2'', Num 20), (''q3'', Num 30), (''q4'', Num 40), (''q5'', Num 50)],
   [(''age'', Str ''unknown''), (''gender'', Str ''F''), (''email'', Str ''a@b.@''), (''q1'', Num 10), (''q2'', Num 20), (''q3'', Num 30), (''q4'', Num 40), (''q5'', NA)],
   [(''age'', Num 150), (''gender'', NA), (''email'', NA), (''q1'', Num 10), (''q2'', NA), (''q3'', NA), (''q4'', Num 40), (''q5'', Num 50)]]"

definition sample_cleaned :: frame where
  "sample_cleaned = sample\<lparr>rows := [(0, record_row
      [(''age'', Num 45), (''gender'', Str ''F''), (''email'', Str ''a@b.c''), (''q1'', Num 10), (''q2'', Num 20), (''q3'', Num 30), (''q4'', Num 40), (''q5'', Num 50)])]\<rparr>"



definition no_gender :: frame where
  "no_gender = read_data [
     [(''age'', Num 45), (''gender'', NA), (''email'', Str ''f@x.org''), (''q1'', Num 10),
      (''q2'', Num 10), (''q3'', Num 10), (''q4'', Num 10), (''q5'', Num 10)]]"

definition text_answer :: frame where
  "text_answer = read_data [
     [(''age'', Num 30), (''gender'', Str ''M''), (''email'', Str ''m@x.org''), (''q1'', Str ''n/a''),
      (''q2'', NA), (''q3'', Num 5), (''q4'', Num 5), (''q5'', Num 5)]]"

text \<open>A row whose answers are all 300.\<close>

definition too_large :: frame where
  "too_large = read_data [
     [(''age'', Num 30), (''gender'', Str ''M''), (''email'', Str ''m@x.org''), (''q1'', Num 300),
      (''q2'', Num 300), (''q3'', Num 300), (''q4'', Num 300), (''q5'', Num 300)]]"

text \<open>A row with one missing answer and a row with no answer at all.\<close>

definition gaps :: frame where
  "gaps = read_data [
     [(''age'', Num 30), (''gender'', Str ''M''), (''email'', Str ''m@x.org''), (''q1'', Num 10),
      (''q2'', Num 20), (''q3'', Num 30), (''q4'', Num 40), (''q5'', NA)],
     [(''age'', Num 50), (''gender'', Str ''F''), (''email'', Str ''f@x.org''), (''q1'', NA),
      (''q2'', NA), (''q3'', NA), (''q4'', NA), (''q5'', NA)]]"

section \<open>Properties\<close>

subsection \<open>Columns, rows and the pattern\<close>

lemma zip_map_same: "zip xs (map f xs) = map (\<lambda>x. (x, f x)) xs"
  by (induction xs) auto

lemma rows_set_col_map:
  "rows (set_col c d (map f (col_values c' t)) t) = map (\<lambda>(i, r). (i, r(c := f (r c')))) (rows t)"
  by (simp add: set_col_def col_values_def zip_map_same case_prod_unfold)

lemma columns_set_col: "columns (set_col c d vs t) = AList.update c d (columns t)"
  by (simp add: set_col_def)

lemma has_col_set_col: "has_col (set_col c d vs t) c' = (c' = c \<or> has_col t c')"
  by (auto simp: has_col_def set_col_def dom_update)

(* regex *)
lemma re_match_plus:
  "re_match ((NotLit a, OneOrMore) # p) s \<longleftrightarrow>
     (\<exists>u v. s = u @ v \<and> u \<noteq> [] \<and> a \<notin> set u \<and> re_match p v)"
proof (induction s)
  case Nil
  then show ?case by simp
next
  case (Cons x xs)
  show ?case
  proof
    assume m: "re_match ((NotLit a, OneOrMore) # p) (x # xs)"
    then have xa: "x \<noteq> a" by simp
    from m have "re_match ((NotLit a, OneOrMore) # p) xs \<or> re_match p xs" by simp
    then show "\<exists>u v. x # xs = u @ v \<and> u \<noteq> [] \<and> a \<notin> set u \<and> re_match p v"
    proof
      assume "re_match ((NotLit a, OneOrMore) # p) xs"
      with Cons.IH obtain u v where "xs = u @ v" "u \<noteq> []" "a \<notin> set u" "re_match p v" by blast
      with xa have "x # xs = (x # u) @ v \<and> x # u \<noteq> [] \<and> a \<notin> set (x # u) \<and> re_match p v" by simp
      then show ?thesis by blast
    next
      assume "re_match p xs"
      with xa have "x # xs = [x] @ xs \<and> [x] \<noteq> [] \<and> a \<notin> set [x] \<and> re_match p xs" by simp
      then show ?thesis by blast
    qed
  next
    assume "\<exists>u v. x # xs = u @ v \<and> u \<noteq> [] \<and> a \<notin> set u \<and> re_match p v"
    then obtain u v where uv: "x # xs = u @ v" "u \<noteq> []" "a \<notin> set u" "re_match p v" by blast
    then obtain u' where u: "u = x # u'" by (cases u) auto
    with uv have xs: "xs = u' @ v" and xa: "x \<noteq> a" and au': "a \<notin> set u'" by auto
    show "re_match ((NotLit a, OneOrMore) # p) (x # xs)"
    proof (cases "u' = []")
      case True
      with xs uv xa show ?thesis by simp
    next
      case False
      with xs au' uv(4) Cons.IH have "re_match ((NotLit a, OneOrMore) # p) xs" by blast
      with xa show ?thesis by simp
    qed
  qed
qed

lemma re_match_lit: "re_match ((Lit a, Once) # p) s \<longleftrightarrow> (\<exists>v. s = a # v \<and> re_match p v)"
  by (cases s) auto

lemma re_match_email:
  "re_match email_re s \<longleftrightarrow>
     (\<exists>l d x r. s = l @ CHR ''@'' # d @ CHR ''.'' # x # r \<and> l \<noteq> [] \<and> CHR ''@'' \<notin> set l
        \<and> d \<noteq> [] \<and> CHR ''@'' \<notin> set d \<and> x \<noteq> CHR ''@'')"
  (is "?L \<longleftrightarrow> ?R")
proof
  assume ?L
  then obtain l v1 where 1: "s = l @ v1" "l \<noteq> []" "CHR ''@'' \<notin> set l"
    and m1: "re_match [(Lit CHR ''@'', Once), (NotLit CHR ''@'', OneOrMore),
      (Lit CHR ''.'', Once), (NotLit CHR ''@'', OneOrMore)] v1"
    unfolding email_re_def re_match_plus by blast
  from m1 obtain v2 where 2: "v1 = CHR ''@'' # v2"
    and m2: "re_match [(NotLit CHR ''@'', OneOrMore), (Lit CHR ''.'', Once), (NotLit CHR ''@'', OneOrMore)] v2"
    unfolding re_match_lit by blast
  from m2 obtain d v3 where 3: "v2 = d @ v3" "d \<noteq> []" "CHR ''@'' \<notin> set d"
    and m3: "re_match [(Lit CHR ''.'', Once), (NotLit CHR ''@'', OneOrMore)] v3"
    unfolding re_match_plus by blast
  from m3 obtain v4 where 4: "v3 = CHR ''.'' # v4"
    and m4: "re_match [(NotLit CHR ''@'', OneOrMore)] v4"
    unfolding re_match_lit by blast
  from m4 obtain u r where 5: "v4 = u @ r" "u \<noteq> []" "CHR ''@'' \<notin> set u"
    unfolding re_match_plus by blast
  then obtain x u' where u: "u = x # u'" by (cases u) auto
  with 5 have "v4 = x # (u' @ r)" "x \<noteq> CHR ''@''" by auto
  with 1 2 3 4 show ?R by blast
next
  assume ?R
  then obtain l d x r where s: "s = l @ CHR ''@'' # d @ CHR ''.'' # x # r" and
    l: "l \<noteq> []" "CHR ''@'' \<notin> set l" and d: "d \<noteq> []" "CHR ''@'' \<notin> set d" and x: "x \<noteq> CHR ''@''"
    by blast
  have m4: "re_match [(NotLit CHR ''@'', OneOrMore)] (x # r)"
    using x by (cases r) auto
  have m3: "re_match [(Lit CHR ''.'', Once), (NotLit CHR ''@'', OneOrMore)] (CHR ''.'' # x # r)"
    using m4 unfolding re_match_lit by blast
  have m2: "re_match [(NotLit CHR ''@'', OneOrMore), (Lit CHR ''.'', Once), (NotLit CHR ''@'', OneOrMore)] (d @ CHR ''.'' # x # r)"
    using m3 d unfolding re_match_plus by blast
  have m1: "re_match [(Lit CHR ''@'', Once), (NotLit CHR ''@'', OneOrMore),
      (Lit CHR ''.'', Once), (NotLit CHR ''@'', OneOrMore)] (CHR ''@'' # d @ CHR ''.'' # x # r)"
    using m2 unfolding re_match_lit by blast
  show ?L unfolding email_re_def s
    using m1 l unfolding re_match_plus by blast
qed

lemma filter_zip_map:
  "filter fst (zip (map P xs) xs) = map (Pair True) (filter P xs)"
  by (induction xs) auto

lemma remove_rows_result:
  assumes "has_col t ''email''"
  shows "remove_rows_without_mail t =
     (Inr (t\<lparr>rows := zip [0..<length (filter (\<lambda>(i, r). is_valid_email (r ''email'')) (rows t))]
                    (map snd (filter (\<lambda>(i, r). is_valid_email (r ''email'')) (rows t)))\<rparr>), t)"
proof -
  have m: "map is_valid_email (col_values ''email'' t) = map (\<lambda>(i, r). is_valid_email (r ''email'')) (rows t)"
    by (simp add: col_values_def case_prod_unfold)
  show ?thesis
    using assms by (simp add: remove_rows_without_mail_def reset_index_def boolean_index_def m filter_zip_map Let_def comp_def)
qed

subsection \<open>The sample tables, evaluated\<close>

lemma sample_rows: "rows sample = [(0, record_row [(''age'', Num 45), (''gender'', Str ''F''), (''email'', Str ''a@b.c''), (''q1'', Num 10), (''q2'', Num 20), (''q3'', Num 30), (''q4'', Num 40), (''q5'', Num 50)]),
   (1, record_row [(''age'', Str ''unknown''), (''gender'', Str ''F''), (''email'', Str ''a@b.@''), (''q1'', Num 10), (''q2'', Num 20), (''q3'', Num 30), (''q4'', Num 40), (''q5'', NA)]),
   (2, record_row [(''age'', Num 150), (''gender'', NA), (''email'', NA), (''q1'', Num 10), (''q2'', NA), (''q3'', NA), (''q4'', Num 40), (''q5'', Num 50)])]"
  by (simp add: sample_def read_data_def upt_rec)

lemma sample_columns: "map fst (columns sample) = [''age'', ''gender'', ''email'', ''q1'', ''q2'', ''q3'', ''q4'', ''q5'']"
  by code_simp

lemma has_sample: "has_col sample ''email''"
  by (simp add: has_col_def sample_columns)


subsection \<open>The email filter and the stored table\<close>

lemma remove_rows_Inr:
  assumes "fst (remove_rows_without_mail t) = Inr c"
  shows "has_col t ''email''"
    and "rows c = zip [0..<length (filter (\<lambda>(i, r). is_valid_email (r ''email'')) (rows t))]
                    (map snd (filter (\<lambda>(i, r). is_valid_email (r ''email'')) (rows t)))"
    and "columns c = columns t"
proof -
  show h: "has_col t ''email''"
    using assms by (cases "has_col t ''email''") (simp_all add: remove_rows_without_mail_def)
  from assms remove_rows_result[OF h]
  have c: "c = t\<lparr>rows := zip [0..<length (filter (\<lambda>(i, r). is_valid_email (r ''email'')) (rows t))]
                    (map snd (filter (\<lambda>(i, r). is_valid_email (r ''email'')) (rows t)))\<rparr>"
    by simp
  show "rows c = zip [0..<length (filter (\<lambda>(i, r). is_valid_email (r ''email'')) (rows t))]
                    (map snd (filter (\<lambda>(i, r). is_valid_email (r ''email'')) (rows t)))"
    by (subst c) simp
  show "columns c = columns t"
    by (subst c) simp
qed

lemma snd_remove_rows: "snd (remove_rows_without_mail t) = t"
  by (simp add: remove_rows_without_mail_def Let_def)

text \<open>
  Claim C4. \<^verbatim>\<open>remove_rows_without_mail\<close> leaves the stored table as it was, whether it
  returns or raises. What it returns is a new table with the columns of the stored one,
  holding exactly the rows with a valid email, in their order, labelled 0, 1, ... with
  no gap. A second call on the stored table the first one left gives the same outcome,
  so a result of the same size.
\<close>

theorem remove_rows_without_mail_frame:
  "snd (remove_rows_without_mail t) = t
   \<and> (\<forall>c. fst (remove_rows_without_mail t) = Inr c \<longrightarrow>
         map fst (rows c) = [0..<length (rows c)]
       \<and> map snd (rows c) = filter (\<lambda>r. is_valid_email (r ''email'')) (map snd (rows t))
       \<and> columns c = columns t)
   \<and> fst (remove_rows_without_mail (snd (remove_rows_without_mail t))) = fst (remove_rows_without_mail t)"
proof (intro conjI allI impI)
  show "snd (remove_rows_without_mail t) = t" by (rule snd_remove_rows)
  show "fst (remove_rows_without_mail (snd (remove_rows_without_mail t))) = fst (remove_rows_without_mail t)"
    by (simp add: snd_remove_rows)
next
  fix c assume a: "fst (remove_rows_without_mail t) = Inr c"
  note r = remove_rows_Inr(2)[OF a]
  show "map fst (rows c) = [0..<length (rows c)]"
    by (simp add: r)
  show "map snd (rows c) = filter (\<lambda>r. is_valid_email (r ''email'')) (map snd (rows t))"
    by (simp add: r filter_map comp_def case_prod_unfold)
  show "columns c = columns t" by (rule remove_rows_Inr(3)[OF a])
qed

theorem remove_rows_without_mail_frame_witness:
  "fst (remove_rows_without_mail sample) = Inr sample_cleaned
   \<and> snd (remove_rows_without_mail sample) = sample
   \<and> map fst (rows sample_cleaned) = [0..<length (rows sample_cleaned)]
   \<and> length (rows sample_cleaned) = 1 \<and> length (rows sample) = 3"
proof -
  have h: "fst (remove_rows_without_mail sample) = Inr sample_cleaned"
    by (simp add: remove_rows_result has_sample sample_cleaned_def sample_rows record_row_def email_re_def)
  have 1: "snd (remove_rows_without_mail sample) = sample"
    using remove_rows_without_mail_frame[of sample] by blast
  have 2: "map fst (rows sample_cleaned) = [0..<length (rows sample_cleaned)]"
    using remove_rows_without_mail_frame[of sample] h by blast
  have 3: "length (rows sample_cleaned) = 1" by (simp add: sample_cleaned_def)
  have 4: "length (rows sample) = 3" by (simp add: sample_rows)
  from h 1 2 3 4 show ?thesis by blast
qed

subsection \<open>Which emails are valid\<close>

lemma first_at_unique:
  "l @ a # u = l' @ a # v \<Longrightarrow> a \<notin> set l \<Longrightarrow> a \<notin> set l' \<Longrightarrow> l = l' \<and> u = v"
proof (induction l arbitrary: l')
  case Nil
  then show ?case by (cases l') auto
next
  case (Cons x xs)
  then show ?case by (cases l') auto
qed

lemma valid_email_shape:
  "is_valid_email e \<longleftrightarrow>
     (\<exists>l d x r. e = Str (l @ ''@'' @ d @ ''.'' @ x # r) \<and> l \<noteq> [] \<and> CHR ''@'' \<notin> set l
        \<and> d \<noteq> [] \<and> CHR ''@'' \<notin> set d \<and> x \<noteq> CHR ''@'')"
proof (cases e)
  case (Str s)
  then show ?thesis by (simp add: re_match_email)
qed simp_all

lemma valid_email_needs:
  assumes "is_valid_email (Str s)"
  shows "CHR ''@'' \<in> set s" and "CHR ''.'' \<in> set s" and "s \<noteq> []" and "hd s \<noteq> CHR ''@''"
    and "\<And>l r. s = l @ ''@@'' @ r \<Longrightarrow> CHR ''@'' \<in> set l"
proof -
  from assms obtain l d x r where s: "s = l @ ''@'' @ d @ ''.'' @ x # r" and l: "l \<noteq> []" "CHR ''@'' \<notin> set l"
    and d: "d \<noteq> []" "CHR ''@'' \<notin> set d"
    unfolding valid_email_shape by blast
  show "CHR ''@'' \<in> set s" "CHR ''.'' \<in> set s" "s \<noteq> []" using s by auto
  show "hd s \<noteq> CHR ''@''" using s l by (cases l) auto
  fix l' r' assume s': "s = l' @ ''@@'' @ r'"
  show "CHR ''@'' \<in> set l'"
  proof (rule ccontr)
    assume n: "CHR ''@'' \<notin> set l'"
    from s s' have "l @ CHR ''@'' # (d @ ''.'' @ x # r) = l' @ CHR ''@'' # (CHR ''@'' # r')" by simp
    from first_at_unique[OF this l(2) n] have "d @ ''.'' @ x # r = CHR ''@'' # r'" by simp
    with d show False by (cases d) auto
  qed
qed

text \<open>
  Claim C2, as the code has it. An email cell is valid exactly when it is a string that
  begins with at least one character other than \<open>@\<close>, then \<open>@\<close>, then at least one
  character other than \<open>@\<close>, then a dot, then one character other than \<open>@\<close>; whatever
  follows is not looked at. A cell that is not a string is invalid, and so is a string
  without \<open>@\<close>, without a dot, empty or starting with \<open>@\<close>, or with \<open>@@\<close> right after
  its local part. On a table with an email column the filter returns exactly the rows
  with a valid email, in their order, and leaves the stored table as it was.
\<close>

theorem email_filter_valid:
  "(is_valid_email e \<longleftrightarrow>
      (\<exists>l d x r. e = Str (l @ ''@'' @ d @ ''.'' @ x # r) \<and> l \<noteq> [] \<and> CHR ''@'' \<notin> set l
         \<and> d \<noteq> [] \<and> CHR ''@'' \<notin> set d \<and> x \<noteq> CHR ''@''))
   \<and> \<not> is_valid_email NA \<and> \<not> is_valid_email (Num n)
   \<and> (CHR ''@'' \<notin> set s \<or> CHR ''.'' \<notin> set s \<or> s = [] \<or> hd s = CHR ''@''
        \<or> (\<exists>l r. s = l @ ''@@'' @ r \<and> CHR ''@'' \<notin> set l) \<longrightarrow> \<not> is_valid_email (Str s))
   \<and> (has_col t ''email'' \<longrightarrow>
        (\<exists>c. remove_rows_without_mail t = (Inr c, t)
           \<and> map snd (rows c) = filter (\<lambda>r. is_valid_email (r ''email'')) (map snd (rows t))))"
proof (intro conjI impI)
  show "is_valid_email e \<longleftrightarrow>
      (\<exists>l d x r. e = Str (l @ ''@'' @ d @ ''.'' @ x # r) \<and> l \<noteq> [] \<and> CHR ''@'' \<notin> set l
         \<and> d \<noteq> [] \<and> CHR ''@'' \<notin> set d \<and> x \<noteq> CHR ''@'')"
    by (rule valid_email_shape)
  show "\<not> is_valid_email NA" "\<not> is_valid_email (Num n)" by simp_all
next
  assume "CHR ''@'' \<notin> set s \<or> CHR ''.'' \<notin> set s \<or> s = [] \<or> hd s = CHR ''@''
        \<or> (\<exists>l r. s = l @ ''@@'' @ r \<and> CHR ''@'' \<notin> set l)"
  then show "\<not> is_valid_email (Str s)"
    using valid_email_needs[of s] by blast
next
  assume h: "has_col t ''email''"
  let ?c = "t\<lparr>rows := zip [0..<length (filter (\<lambda>(i, r). is_valid_email (r ''email'')) (rows t))]
                    (map snd (filter (\<lambda>(i, r). is_valid_email (r ''email'')) (rows t)))\<rparr>"
  have "remove_rows_without_mail t = (Inr ?c, t)" by (rule remove_rows_result[OF h])
  moreover have "map snd (rows ?c) = filter (\<lambda>r. is_valid_email (r ''email'')) (map snd (rows t))"
    by (simp add: filter_map comp_def case_prod_unfold)
  ultimately show "\<exists>c. remove_rows_without_mail t = (Inr c, t)
           \<and> map snd (rows c) = filter (\<lambda>r. is_valid_email (r ''email'')) (map snd (rows t))"
    by blast
qed

text \<open>
  The claim as stated lets any character follow the dot. The string \<^verbatim>\<open>a@b.@\<close> has that
  shape (local part \<^verbatim>\<open>a\<close>, domain \<^verbatim>\<open>b\<close>, a dot, then the one character \<^verbatim>\<open>@\<close>), and the
  code finds it invalid.
\<close>

theorem email_filter_valid_counterexample:
  "''a@b.@'' = ''a'' @ ''@'' @ ''b'' @ ''.'' @ ''@'' \<and> \<not> is_valid_email (Str ''a@b.@'')"
  by (simp add: email_re_def)

theorem email_filter_valid_witness:
  "is_valid_email (Str ''a@b.c'') \<and> \<not> is_valid_email (Str ''notanemail'')
   \<and> \<not> is_valid_email (Str ''a@@b.com'') \<and> \<not> is_valid_email (Str ''@b.com'')
   \<and> has_col sample ''email''
   \<and> (\<exists>c. remove_rows_without_mail sample = (Inr c, sample)
         \<and> map (\<lambda>r. r ''email'') (map snd (rows c)) = [Str ''a@b.c''])"
proof -
  have shape: "\<exists>l d x r. Str ''a@b.c'' = Str (l @ ''@'' @ d @ ''.'' @ x # r) \<and> l \<noteq> []
      \<and> CHR ''@'' \<notin> set l \<and> d \<noteq> [] \<and> CHR ''@'' \<notin> set d \<and> x \<noteq> CHR ''@''"
    by (rule exI[of _ "''a''"], rule exI[of _ "''b''"], rule exI[of _ "CHR ''c''"],
        rule exI[of _ "[]"]) simp
  have 1: "is_valid_email (Str ''a@b.c'')"
    using email_filter_valid[where e = "Str ''a@b.c''"] shape by blast
  have 2: "\<not> is_valid_email (Str ''notanemail'')"
  proof -
    have "CHR ''@'' \<notin> set ''notanemail''" by simp
    then show ?thesis using email_filter_valid[where s = "''notanemail''"] by blast
  qed
  have 3: "\<not> is_valid_email (Str ''a@@b.com'')"
  proof -
    have "''a@@b.com'' = ''a'' @ ''@@'' @ ''b.com'' \<and> CHR ''@'' \<notin> set ''a''" by simp
    then show ?thesis using email_filter_valid[where s = "''a@@b.com''"] by blast
  qed
  have 4: "\<not> is_valid_email (Str ''@b.com'')"
  proof -
    have "hd ''@b.com'' = CHR ''@''" by simp
    then show ?thesis using email_filter_valid[where s = "''@b.com''"] by blast
  qed
  have f: "filter (\<lambda>r. is_valid_email (r ''email'')) (map snd (rows sample)) = map snd (rows sample_cleaned)"
    by (simp add: sample_rows sample_cleaned_def record_row_def email_re_def)
  from email_filter_valid[where t = sample] has_sample
  obtain c where c: "remove_rows_without_mail sample = (Inr c, sample)"
      "map snd (rows c) = filter (\<lambda>r. is_valid_email (r ''email'')) (map snd (rows sample))"
    by blast
  have "map (\<lambda>r. r ''email'') (map snd (rows c)) = [Str ''a@b.c'']"
    by (simp add: c(2) f sample_cleaned_def record_row_def)
  with c(1) have "\<exists>c. remove_rows_without_mail sample = (Inr c, sample)
         \<and> map (\<lambda>r. r ''email'') (map snd (rows c)) = [Str ''a@b.c'']"
    by (intro exI[of _ c] conjI)
  with 1 2 3 4 has_sample show ?thesis by (intro conjI)
qed

subsection \<open>The age distribution\<close>

lemma arange_bins: "arange 0 101 10 = [0, 10, 20, 30, 40, 50, 60, 70, 80, 90, 100]"
  by (simp add: arange.simps)

lemma count_split:
  "(\<And>x. \<not> (P x \<and> Q x)) \<Longrightarrow>
   length (filter P xs) + length (filter Q xs) = length (filter (\<lambda>x. P x \<or> Q x) xs)"
  by (induction xs) auto

lemma histogram_sum:
  "sorted (a # b # es) \<Longrightarrow>
   sum_list (histogram xs (a # b # es)) = length (filter (\<lambda>x. a \<le> x \<and> x \<le> last (b # es)) xs)"
proof (induction es arbitrary: a b)
  case Nil
  then show ?case by simp
next
  case (Cons c es)
  from Cons.prems have ab: "a \<le> b" and s: "sorted (b # c # es)" by auto
  from s have bl: "b \<le> last (c # es)"
    by (metis last_in_set list.distinct(1) sorted_simps(2))
  have "sum_list (histogram xs (a # b # c # es))
      = length (filter (\<lambda>x. a \<le> x \<and> x < b) xs) + length (filter (\<lambda>x. b \<le> x \<and> x \<le> last (c # es)) xs)"
    using Cons.IH[OF s] by simp
  also have "\<dots> = length (filter (\<lambda>x. (a \<le> x \<and> x < b) \<or> (b \<le> x \<and> x \<le> last (c # es))) xs)"
    by (rule count_split) auto
  also have "(\<lambda>x. (a \<le> x \<and> x < b) \<or> (b \<le> x \<and> x \<le> last (c # es)))
           = (\<lambda>x. a \<le> x \<and> x \<le> last (c # es))"
    using ab bl by (intro ext) auto
  finally show ?case by simp
qed

lemma length_histogram: "length (histogram xs es) = length es - 1"
  by (induction xs es rule: histogram.induct) auto

lemma filter_num_values:
  "length (filter P (num_values cs)) = length (filter (\<lambda>c. case c of Num a \<Rightarrow> P a | _ \<Rightarrow> False) cs)"
  by (induction cs rule: num_values.induct) auto

lemma show_age_distrib_result:
  assumes "has_col t ''age''"
  shows "show_age_distrib pf t =
    (Inr (histogram (num_values (map (\<lambda>(i, r). to_numeric pf (r ''age'')) (rows t)))
            [0, 10, 20, 30, 40, 50, 60, 70, 80, 90, 100],
          [0, 10, 20, 30, 40, 50, 60, 70, 80, 90, 100]),
     set_col ''age'' NumericD (map (to_numeric pf) (col_values ''age'' t)) t)"
proof -
  have "col_values ''age'' (set_col ''age'' NumericD (map (to_numeric pf) (col_values ''age'' t)) t)
      = map (\<lambda>(i, r). to_numeric pf (r ''age'')) (rows t)"
    by (simp add: col_values_def[of _ "set_col _ _ _ _"] rows_set_col_map case_prod_unfold comp_def)
  then show ?thesis
    using assms by (simp add: show_age_distrib_def Let_def arange_bins)
qed

text \<open>
  Claim C5, as the code has it. On a table with an age column \<^verbatim>\<open>show_age_distrib\<close>
  returns ten counts and the eleven edges 0, 10, ..., 100, one more edge than counts.
  The counts sum to the number of rows whose coerced age is a number from 0 to 100,
  both included: a missing or non-numeric age is not counted, and neither is a numeric
  age below 0 or above 100. Bin \<open>k\<close> for \<open>k < 9\<close> counts the ages from \<open>10k\<close> up to, not
  including, \<open>10k + 10\<close>; the last bin counts the ages from 90 to 100, 100 included.
\<close>

theorem show_age_distrib_counts:
  assumes "has_col t ''age''"
  shows "\<exists>hist bins t'. show_age_distrib pf t = (Inr (hist, bins), t')
     \<and> bins = [0, 10, 20, 30, 40, 50, 60, 70, 80, 90, 100]
     \<and> length hist = 10 \<and> length bins = length hist + 1
     \<and> sum_list hist = length (filter (\<lambda>(i, r). case to_numeric pf (r ''age'') of
                                  Num a \<Rightarrow> 0 \<le> a \<and> a \<le> 100 | _ \<Rightarrow> False) (rows t))
     \<and> (\<forall>k < 9. hist ! k = length (filter (\<lambda>(i, r). case to_numeric pf (r ''age'') of
                     Num a \<Rightarrow> 10 * of_nat k \<le> a \<and> a < 10 * of_nat k + 10 | _ \<Rightarrow> False) (rows t)))
     \<and> hist ! 9 = length (filter (\<lambda>(i, r). case to_numeric pf (r ''age'') of
                     Num a \<Rightarrow> 90 \<le> a \<and> a \<le> 100 | _ \<Rightarrow> False) (rows t))"
proof -
  let ?ages = "map (\<lambda>(i, r). to_numeric pf (r ''age'')) (rows t)"
  let ?edges = "[0, 10, 20, 30, 40, 50, 60, 70, 80, 90, 100] :: rat list"
  let ?hist = "histogram (num_values ?ages) ?edges"
  have cnt: "\<And>P. length (filter P (num_values ?ages))
      = length (filter (\<lambda>(i, r). case to_numeric pf (r ''age'') of Num a \<Rightarrow> P a | _ \<Rightarrow> False) (rows t))"
    by (simp add: filter_num_values filter_map comp_def case_prod_unfold)
  have 1: "length ?hist = 10" by (simp add: length_histogram)
  have "sum_list ?hist = length (filter (\<lambda>x. 0 \<le> x \<and> x \<le> 100) (num_values ?ages))"
    by (subst histogram_sum) simp_all
  then have 2: "sum_list ?hist = length (filter (\<lambda>(i, r). case to_numeric pf (r ''age'') of
                                  Num a \<Rightarrow> 0 \<le> a \<and> a \<le> 100 | _ \<Rightarrow> False) (rows t))"
    by (simp only: cnt)
  have 3: "?hist ! k = length (filter (\<lambda>(i, r). case to_numeric pf (r ''age'') of
                     Num a \<Rightarrow> 10 * of_nat k \<le> a \<and> a < 10 * of_nat k + 10 | _ \<Rightarrow> False) (rows t))"
    if "k < 9" for k
  proof -
    from that have "k \<in> {0, 1, 2, 3, 4, 5, 6, 7, 8}" by auto
    then have "?hist ! k = length (filter (\<lambda>x. 10 * of_nat k \<le> x \<and> x < 10 * of_nat k + 10) (num_values ?ages))"
      by (elim insertE emptyE) (simp_all add: nth_Cons')
    then show ?thesis by (simp only: cnt)
  qed
  have "?hist ! 9 = length (filter (\<lambda>x. 90 \<le> x \<and> x \<le> 100) (num_values ?ages))"
    by (simp add: nth_Cons')
  then have 4: "?hist ! 9 = length (filter (\<lambda>(i, r). case to_numeric pf (r ''age'') of
                     Num a \<Rightarrow> 90 \<le> a \<and> a \<le> 100 | _ \<Rightarrow> False) (rows t))"
    by (simp only: cnt)
  show ?thesis
    unfolding show_age_distrib_result[OF assms]
    using 1 2 3 4 by (intro exI conjI) (simp_all only: prod.inject sum.inject refl list.size length_Cons, simp_all)
qed

text \<open>
  The sample table has the ages 45, \<^verbatim>\<open>"unknown"\<close> and 150: two of its rows have a
  numeric age, and the counts sum to one, since 150 lies outside every bin.
\<close>

theorem show_age_distrib_counts_counterexample:
  "(case fst (show_age_distrib (\<lambda>s. None) sample) of
      Inl e \<Rightarrow> 0
    | Inr (hist, bins) \<Rightarrow> sum_list hist) = 1
   \<and> length (filter (\<lambda>c. \<not> isnull c) (map (to_numeric (\<lambda>s. None)) (col_values ''age'' sample))) = 2
   \<and> map (to_numeric (\<lambda>s. None)) (col_values ''age'' sample) = [Num 45, NA, Num 150]"
  by code_simp

lemma has_sample_age: "has_col sample ''age''"
  by (simp add: has_col_def sample_columns)

theorem show_age_distrib_counts_witness:
  "has_col sample ''age''
   \<and> (\<exists>hist bins t'. show_age_distrib (\<lambda>s. None) sample = (Inr (hist, bins), t')
        \<and> length bins = length hist + 1 \<and> sum_list hist = 1 \<and> hist ! 9 = 0)"
proof -
  from show_age_distrib_counts[OF has_sample_age, of "\<lambda>s. None"]
  obtain hist bins t' where r: "show_age_distrib (\<lambda>s. None) sample = (Inr (hist, bins), t')"
    and l: "length bins = length hist + 1"
    and s: "sum_list hist = length (filter (\<lambda>(i, r). case to_numeric (\<lambda>s. None) (r ''age'') of
                                  Num a \<Rightarrow> 0 \<le> a \<and> a \<le> 100 | _ \<Rightarrow> False) (rows sample))"
    and n: "hist ! 9 = length (filter (\<lambda>(i, r). case to_numeric (\<lambda>s. None) (r ''age'') of
                     Num a \<Rightarrow> 90 \<le> a \<and> a \<le> 100 | _ \<Rightarrow> False) (rows sample))"
    by blast
  from s have s1: "sum_list hist = 1" by (simp add: sample_rows record_row_def)
  from n have n0: "hist ! 9 = 0" by (simp add: sample_rows record_row_def)
  from r l s1 n0 have "\<exists>hist bins t'. show_age_distrib (\<lambda>s. None) sample = (Inr (hist, bins), t')
        \<and> length bins = length hist + 1 \<and> sum_list hist = 1 \<and> hist ! 9 = 0"
    by (intro exI[of _ hist] exI[of _ bins] exI[of _ t'] conjI)
  with has_sample_age show ?thesis by (intro conjI)
qed

subsection \<open>Writes to the stored table by the age distribution and the correlation\<close>

lemma apply_each_total:
  "(\<And>x. x \<in> set xs \<Longrightarrow> f x = Inr (g x)) \<Longrightarrow> apply_each f xs = Inr (map g xs)"
  by (induction xs) auto

lemma to_numeric_not_str: "\<not> is_str (to_numeric pf c)"
  by (cases c) (auto split: option.splits)

lemma to_numeric_idem: "to_numeric pf (to_numeric pf c) = to_numeric pf c"
  by (cases c) (auto split: option.splits)

lemma age_group_of_coerced: "age_group_of (to_numeric pf c) = Inr (Str (age_label pf c))"
  by (cases "to_numeric pf c") (auto simp: age_label_def to_numeric_not_str dest: arg_cong[where f = is_str] )

lemma rows_with_age:
  "rows (with_age pf t) = map (\<lambda>(i, r). (i, r(''age'' := to_numeric pf (r ''age'')))) (rows t)"
  by (simp add: with_age_def rows_set_col_map)

lemma rows_with_age_group:
  "rows (with_age_group pf t)
     = map (\<lambda>(i, r). (i, r(''age'' := to_numeric pf (r ''age''),
                           ''age_group'' := Str (age_label pf (r ''age''))))) (rows t)"
proof -
  have "age_label pf (to_numeric pf c) = age_label pf c" for c
    by (simp add: age_label_def to_numeric_idem)
  then show ?thesis
    by (simp add: with_age_group_def rows_set_col_map rows_with_age comp_def case_prod_unfold)
qed

lemma correlate_result:
  assumes "has_col t ''age''"
  shows "correlate_gender_age pf t =
     (if has_col t ''gender'' \<and> list_all (numeric_col (with_age_group pf t)) qs
      then Inr (group_means (with_age_group pf t)) else Inl KeyError, with_age_group pf t)"
proof -
  have "apply_each age_group_of (col_values ''age'' (with_age pf t))
      = Inr (map (\<lambda>c. Str (age_label pf c)) (col_values ''age'' (with_age pf t)))"
  proof (rule apply_each_total)
    fix x assume "x \<in> set (col_values ''age'' (with_age pf t))"
    then obtain c where x: "x = to_numeric pf c"
      by (auto simp: col_values_def rows_with_age)
    show "age_group_of x = Inr (Str (age_label pf x))"
      unfolding x by (simp add: age_group_of_coerced age_label_def to_numeric_idem)
  qed
  moreover have "has_col (with_age_group pf t) ''gender'' = has_col t ''gender''"
    by (simp add: with_age_group_def with_age_def has_col_set_col)
  ultimately show ?thesis
    using assms
    by (simp add: correlate_gender_age_def Let_def with_age_def[symmetric] with_age_group_def[symmetric])
qed

lemma snd_show_age_distrib:
  "has_col t ''age'' \<Longrightarrow> snd (show_age_distrib pf t) = with_age pf t"
  by (simp add: show_age_distrib_def Let_def with_age_def)

lemma snd_correlate:
  "has_col t ''age'' \<Longrightarrow> snd (correlate_gender_age pf t) = with_age_group pf t"
  by (simp add: correlate_result)

lemma columns_with_age: "columns (with_age pf t) = AList.update ''age'' NumericD (columns t)"
  by (simp add: with_age_def columns_set_col)

lemma columns_with_age_group:
  "columns (with_age_group pf t)
     = AList.update ''age_group'' ObjectD (AList.update ''age'' NumericD (columns t))"
  by (simp add: with_age_group_def columns_set_col columns_with_age)

lemma has_col_with_age: "has_col (with_age pf t) c = (c = ''age'' \<or> has_col t c)"
  by (simp add: with_age_def has_col_set_col)

lemma with_age_idem: "with_age pf (with_age pf t) = with_age pf t"
proof -
  have "rows (with_age pf (with_age pf t)) = rows (with_age pf t)"
    by (simp add: rows_with_age comp_def case_prod_unfold to_numeric_idem)
  moreover have "columns (with_age pf (with_age pf t)) = columns (with_age pf t)"
    by (simp add: columns_with_age)
  ultimately show ?thesis by simp
qed

text \<open>
  Claim C10. On a table with an age column, \<^verbatim>\<open>show_age_distrib\<close> and
  \<^verbatim>\<open>correlate_gender_age\<close> both leave the coerced ages in the stored table: every age
  cell is replaced by its coerced value, the column becomes numeric, no string is left
  in it (a non-numeric age is missing from then on, and a further call changes nothing
  more). \<^verbatim>\<open>correlate_gender_age\<close> also writes the column \<open>age_group\<close>, new or
  overwritten, with the label of every row, whether or not the call goes on to raise.
\<close>

theorem age_written_back:
  assumes "has_col t ''age''"
  shows "rows (snd (show_age_distrib pf t))
           = map (\<lambda>(i, r). (i, r(''age'' := to_numeric pf (r ''age'')))) (rows t)
   \<and> map_of (columns (snd (show_age_distrib pf t))) ''age'' = Some NumericD
   \<and> (\<forall>(i, r) \<in> set (rows (snd (show_age_distrib pf t))). \<not> is_str (r ''age''))
   \<and> snd (show_age_distrib pf (snd (show_age_distrib pf t))) = snd (show_age_distrib pf t)
   \<and> rows (snd (correlate_gender_age pf t))
           = map (\<lambda>(i, r). (i, r(''age'' := to_numeric pf (r ''age''),
                                 ''age_group'' := Str (age_label pf (r ''age''))))) (rows t)
   \<and> map_of (columns (snd (correlate_gender_age pf t))) ''age'' = Some NumericD
   \<and> map_of (columns (snd (correlate_gender_age pf t))) ''age_group'' = Some ObjectD
   \<and> has_col (snd (correlate_gender_age pf t)) ''age_group''"
proof -
  note s = snd_show_age_distrib[OF assms] snd_correlate[OF assms]
  have h: "has_col (with_age pf t) ''age''" by (simp add: has_col_with_age)
  have 1: "rows (with_age pf t) = map (\<lambda>(i, r). (i, r(''age'' := to_numeric pf (r ''age'')))) (rows t)"
    by (rule rows_with_age)
  have 2: "map_of (columns (with_age pf t)) ''age'' = Some NumericD"
    by (simp add: columns_with_age update_conv')
  have 3: "\<forall>(i, r) \<in> set (rows (with_age pf t)). \<not> is_str (r ''age'')"
    by (auto simp: rows_with_age to_numeric_not_str)
  have 4: "snd (show_age_distrib pf (with_age pf t)) = with_age pf t"
    by (simp add: snd_show_age_distrib[OF h] with_age_idem)
  have 5: "rows (with_age_group pf t)
           = map (\<lambda>(i, r). (i, r(''age'' := to_numeric pf (r ''age''),
                                 ''age_group'' := Str (age_label pf (r ''age''))))) (rows t)"
    by (rule rows_with_age_group)
  have 6: "map_of (columns (with_age_group pf t)) ''age'' = Some NumericD"
    by (simp add: columns_with_age_group update_conv')
  have 7: "map_of (columns (with_age_group pf t)) ''age_group'' = Some ObjectD"
    by (simp add: columns_with_age_group update_conv')
  have 8: "has_col (with_age_group pf t) ''age_group''"
    by (simp add: with_age_group_def has_col_set_col)
  show ?thesis unfolding s using 1 2 3 4 5 6 7 8 by (intro conjI)
qed

theorem age_written_back_witness:
  "has_col sample ''age''
   \<and> map (\<lambda>(i, r). r ''age'') (rows sample) = [Num 45, Str ''unknown'', Num 150]
   \<and> map (\<lambda>(i, r). r ''age'') (rows (snd (show_age_distrib (\<lambda>s. None) sample)))
        = [Num 45, NA, Num 150]
   \<and> map (\<lambda>(i, r). (r ''age'', r ''age_group'')) (rows (snd (correlate_gender_age (\<lambda>s. None) sample)))
        = [(Num 45, Str ''above_40''), (NA, Str ''below_40''), (Num 150, Str ''above_40'')]
   \<and> has_col (snd (correlate_gender_age (\<lambda>s. None) sample)) ''age_group''"
proof -
  note w = age_written_back[OF has_sample_age, of "\<lambda>s. None"]
  have 0: "map (\<lambda>(i, r). r ''age'') (rows sample) = [Num 45, Str ''unknown'', Num 150]"
    by (simp add: sample_rows record_row_def)
  from w have "rows (snd (show_age_distrib (\<lambda>s. None) sample))
           = map (\<lambda>(i, r). (i, r(''age'' := to_numeric (\<lambda>s. None) (r ''age'')))) (rows sample)"
    by (elim conjE)
  then have 1: "map (\<lambda>(i, r). r ''age'') (rows (snd (show_age_distrib (\<lambda>s. None) sample)))
        = [Num 45, NA, Num 150]"
    by (simp add: sample_rows record_row_def)
  from w have "rows (snd (correlate_gender_age (\<lambda>s. None) sample))
           = map (\<lambda>(i, r). (i, r(''age'' := to_numeric (\<lambda>s. None) (r ''age''),
                 ''age_group'' := Str (age_label (\<lambda>s. None) (r ''age''))))) (rows sample)"
    by (elim conjE)
  then have 2: "map (\<lambda>(i, r). (r ''age'', r ''age_group'')) (rows (snd (correlate_gender_age (\<lambda>s. None) sample)))
        = [(Num 45, Str ''above_40''), (NA, Str ''below_40''), (Num 150, Str ''above_40'')]"
    by (simp add: sample_rows record_row_def age_label_def)
  from w have 3: "has_col (snd (correlate_gender_age (\<lambda>s. None) sample)) ''age_group''"
    by (elim conjE)
  from has_sample_age 0 1 2 3 show ?thesis by (intro conjI)
qed

subsection \<open>The groups of the correlation\<close>













subsection \<open>Scoring with at most one missing answer\<close>

lemma coerced_row_step:
  "coerced_row pf cs (r(c := to_numeric pf (r c))) = coerced_row pf (c # cs) r"
  by (auto simp: coerced_row_def fun_eq_iff to_numeric_idem)

lemma coerce_cols_result:
  "list_all (has_col t) cs \<Longrightarrow> coerce_cols pf cs t = (Inr (), with_numeric pf cs t)"
proof (induction cs arbitrary: t)
  case Nil
  then show ?case by (simp add: with_numeric_def coerced_row_def)
next
  case (Cons c cs)
  let ?t1 = "set_col c NumericD (map (to_numeric pf) (col_values c t)) t"
  from Cons.prems have c: "has_col t c" and cs: "list_all (has_col t) cs" by simp_all
  from cs have "list_all (has_col ?t1) cs" by (simp add: list_all_iff has_col_set_col)
  from Cons.IH[OF this] have "coerce_cols pf cs ?t1 = (Inr (), with_numeric pf cs ?t1)" .
  moreover have "with_numeric pf cs ?t1 = with_numeric pf (c # cs) t"
    by (simp add: with_numeric_def rows_set_col_map columns_set_col comp_def case_prod_unfold
        coerced_row_step)
  ultimately show ?case using c by simp
qed

lemma num_values_length:
  "\<not> list_ex is_str cs \<Longrightarrow> length (num_values cs) + length (filter isnull cs) = length cs"
  by (induction cs rule: num_values.induct) auto

lemma coerced_questions_no_str: "\<not> list_ex is_str (coerced_questions pf r)"
  by (simp add: coerced_questions_def list_ex_iff to_numeric_not_str)

lemma length_coerced_questions: "length (coerced_questions pf r) = 5"
  by (simp add: coerced_questions_def qs_def)

lemma calculate_score_default:
  "calculate_score 1 (coerced_questions pf r) = Inr (expected_score pf r)"
proof (cases "1 < missing_count (coerced_questions pf r)")
  case True
  then show ?thesis by (simp add: calculate_score_def expected_score_def missing_count_def)
next
  case False
  let ?cs = "coerced_questions pf r"
  from num_values_length[OF coerced_questions_no_str, of pf r] False
  have "num_values ?cs \<noteq> []"
    by (auto simp: missing_count_def length_coerced_questions)
  then have "series_mean ?cs = Inr (Num (sum_list (num_values ?cs) / of_nat (length (num_values ?cs))))"
    by (simp add: series_mean_def coerced_questions_no_str mean_cell_def)
  with False show ?thesis
    by (simp add: calculate_score_def expected_score_def missing_count_def floor_mean_def)
qed

lemma apply_rows_default:
  "apply_rows (calculate_score 1) (map (\<lambda>(i, r). coerced_questions pf r) rs)
     = Inr (map (\<lambda>(i, r). expected_score pf r) rs)"
proof (cases "rs = []")
  case True
  then show ?thesis
    by (simp add: apply_rows_def calculate_score_def qs_def)
next
  case False
  have "apply_each (calculate_score 1) (map (\<lambda>(i, r). coerced_questions pf r) rs)
      = Inr (map (\<lambda>cs. case calculate_score 1 cs of Inr v \<Rightarrow> v | Inl e \<Rightarrow> NA) (map (\<lambda>(i, r). coerced_questions pf r) rs))"
    by (rule apply_each_total) (auto simp: calculate_score_default)
  also have "\<dots> = Inr (map (\<lambda>(i, r). expected_score pf r) rs)"
    by (simp add: comp_def case_prod_unfold calculate_score_default)
  finally show ?thesis using False by (simp add: apply_rows_def)
qed

lemma uint8_expected:
  "uint8_cell (expected_score pf r) = (if score_fits pf r then Inr (expected_score pf r) else Inl CastError)"
  by (auto simp: expected_score_def score_fits_def)

lemma apply_each_fails:
  "(\<And>x. x \<in> set xs \<Longrightarrow> f x = Inr (g x) \<or> f x = Inl e) \<Longrightarrow> \<exists>x \<in> set xs. f x = Inl e \<Longrightarrow>
   apply_each f xs = Inl e"
proof (induction xs)
  case Nil
  then show ?case by simp
next
  case (Cons x xs)
  show ?case
  proof (cases "f x = Inl e")
    case True
    then show ?thesis by simp
  next
    case False
    with Cons.prems have fx: "f x = Inr (g x)" and ex: "\<exists>x \<in> set xs. f x = Inl e" by auto
    from Cons.IH[OF _ ex] Cons.prems(1) have "apply_each f xs = Inl e" by simp
    with fx show ?thesis by simp
  qed
qed

lemma astype_expected:
  "astype_uint8 (map (\<lambda>(i, r). expected_score pf r) rs)
     = (if list_all (\<lambda>(i, r). score_fits pf r) rs
        then Inr (map (\<lambda>(i, r). expected_score pf r) rs) else Inl CastError)"
proof (cases "list_all (\<lambda>(i, r). score_fits pf r) rs")
  case True
  have "apply_each uint8_cell (map (\<lambda>(i, r). expected_score pf r) rs)
      = Inr (map id (map (\<lambda>(i, r). expected_score pf r) rs))"
    using True by (intro apply_each_total) (auto simp: list_all_iff uint8_expected)
  with True show ?thesis by (simp add: astype_uint8_def)
next
  case False
  have "apply_each uint8_cell (map (\<lambda>(i, r). expected_score pf r) rs) = Inl CastError"
  proof (rule apply_each_fails[where g = id])
    fix x assume "x \<in> set (map (\<lambda>(i, r). expected_score pf r) rs)"
    then show "uint8_cell x = Inr (id x) \<or> uint8_cell x = Inl CastError"
      by (auto simp: uint8_expected split: if_splits)
  next
    from False show "\<exists>x \<in> set (map (\<lambda>(i, r). expected_score pf r) rs). uint8_cell x = Inl CastError"
      by (auto simp: list_all_iff uint8_expected intro!: bexI)
  qed
  with False show ?thesis by (simp add: astype_uint8_def)
qed

lemma zip_map_map: "zip (map f xs) (map g xs) = map (\<lambda>x. (f x, g x)) xs"
  by (induction xs) auto

lemma question_rows_with_numeric:
  "map (\<lambda>(i, r). map r qs) (rows (with_numeric pf qs t)) = map (\<lambda>(i, r). coerced_questions pf r) (rows t)"
  by (simp add: with_numeric_def comp_def case_prod_unfold coerced_questions_def coerced_row_def)

lemma score_default_result:
  assumes "list_all (has_col t) qs"
  shows "score_subjects pf 1 t =
    (if list_all (\<lambda>(i, r). score_fits pf r) (rows t)
     then (let t2 = set_col ''score'' UInt8D (map (\<lambda>(i, r). expected_score pf r) (rows t))
                      (with_numeric pf qs t)
           in (Inr t2, t2))
     else (Inl CastError, with_numeric pf qs t))"
  by (simp add: score_subjects_def coerce_cols_result[OF assms] question_rows_with_numeric
      apply_rows_default astype_expected Let_def)

lemma rows_scored:
  "rows (set_col ''score'' UInt8D (map (\<lambda>(i, r). expected_score pf r) (rows t)) (with_numeric pf qs t))
     = map (\<lambda>(i, r). (i, (coerced_row pf qs r)(''score'' := expected_score pf r))) (rows t)"
  by (simp add: set_col_def with_numeric_def zip_map_map case_prod_unfold comp_def)

text \<open>
  Claim C1, as the code has it. Take a table with the five question columns and the
  default threshold 1. The answers of a row are coerced first, a non-numeric one
  becoming missing; let the coerced answers be whole answers. When every row is either
  unscored or has a score from 0 to 255, \<^verbatim>\<open>score_subjects\<close> returns the stored table, in
  which every row has its coerced answers and, in the column \<open>score\<close>, the missing
  marker when more than one of its answers is missing and otherwise the floor of the
  mean of the answers that are there. When some row's score would fall outside 0 to
  255, the cast to \<^verbatim>\<open>UInt8\<close> raises: no row gets a score, and the stored table is left
  with the coerced answers only.
\<close>

theorem score_subjects_default:
  assumes "list_all (has_col t) qs" and "list_all (\<lambda>(i, r). whole_answers pf r) (rows t)"
  shows "(list_all (\<lambda>(i, r). score_fits pf r) (rows t) \<longrightarrow>
           (\<exists>t'. score_subjects pf 1 t = (Inr t', t')
              \<and> rows t' = map (\<lambda>(i, r). (i, (coerced_row pf qs r)(''score'' := expected_score pf r)))
                            (rows t)
              \<and> map_of (columns t') ''score'' = Some UInt8D))
       \<and> (\<not> list_all (\<lambda>(i, r). score_fits pf r) (rows t) \<longrightarrow>
           score_subjects pf 1 t = (Inl CastError, with_numeric pf qs t))
       \<and> expected_score pf r =
           (let cs = map (\<lambda>q. to_numeric pf (r q)) [''q1'', ''q2'', ''q3'', ''q4'', ''q5'']
            in if 1 < length (filter isnull cs) then NA
               else Num (of_int \<lfloor>sum_list (num_values cs) / of_nat (length (num_values cs))\<rfloor>))"
proof (intro conjI impI)
  assume fits: "list_all (\<lambda>(i, r). score_fits pf r) (rows t)"
  let ?t2 = "set_col ''score'' UInt8D (map (\<lambda>(i, r). expected_score pf r) (rows t))
               (with_numeric pf qs t)"
  have "score_subjects pf 1 t = (Inr ?t2, ?t2)"
    using fits by (simp add: score_default_result[OF assms(1)] Let_def)
  moreover have "map_of (columns ?t2) ''score'' = Some UInt8D"
    by (simp add: columns_set_col update_conv')
  ultimately show "\<exists>t'. score_subjects pf 1 t = (Inr t', t')
              \<and> rows t' = map (\<lambda>(i, r). (i, (coerced_row pf qs r)(''score'' := expected_score pf r)))
                            (rows t)
              \<and> map_of (columns t') ''score'' = Some UInt8D"
    using rows_scored[of pf t] by (intro exI[of _ ?t2] conjI)
next
  assume "\<not> list_all (\<lambda>(i, r). score_fits pf r) (rows t)"
  then show "score_subjects pf 1 t = (Inl CastError, with_numeric pf qs t)"
    by (simp add: score_default_result[OF assms(1)])
next
  show "expected_score pf r =
           (let cs = map (\<lambda>q. to_numeric pf (r q)) [''q1'', ''q2'', ''q3'', ''q4'', ''q5'']
            in if 1 < length (filter isnull cs) then NA
               else Num (of_int \<lfloor>sum_list (num_values cs) / of_nat (length (num_values cs))\<rfloor>))"
    by (simp add: expected_score_def coerced_questions_def missing_count_def floor_mean_def qs_def
        Let_def)
qed

lemma too_large_questions: "list_all (has_col too_large) qs"
  by code_simp

lemma too_large_unfit: "\<not> list_all (\<lambda>(i, r). score_fits (\<lambda>s. None) r) (rows too_large)"
  by code_simp

text \<open>
  A row whose five answers are 300 has no missing answer and the floor of its mean is
  300: the call raises, and the stored table has no score column afterwards.
\<close>

theorem score_subjects_default_counterexample:
  "map (\<lambda>(i, r). map r qs) (rows too_large) = [[Num 300, Num 300, Num 300, Num 300, Num 300]]
   \<and> fst (score_subjects (\<lambda>s. None) 1 too_large) = Inl CastError
   \<and> \<not> has_col (snd (score_subjects (\<lambda>s. None) 1 too_large)) ''score''"
proof -
  have 1: "map (\<lambda>(i, r). map r qs) (rows too_large)
         = [[Num 300, Num 300, Num 300, Num 300, Num 300]]"
    by code_simp
  have r: "score_subjects (\<lambda>s. None) 1 too_large
         = (Inl CastError, with_numeric (\<lambda>s. None) qs too_large)"
    using too_large_unfit by (simp add: score_default_result[OF too_large_questions])
  have 3: "\<not> has_col (with_numeric (\<lambda>s. None) qs too_large) ''score''"
    by code_simp
  from 1 r 3 show ?thesis by simp
qed

lemma sample_questions: "list_all (has_col sample) qs"
  by (simp add: has_col_def sample_columns qs_def)

lemma sample_fits: "list_all (\<lambda>(i, r). score_fits (\<lambda>s. None) r) (rows sample)"
  by code_simp

lemma sample_whole: "list_all (\<lambda>(i, r). whole_answers (\<lambda>s. None) r) (rows sample)"
  by code_simp

theorem score_subjects_default_witness:
  "list_all (has_col sample) qs \<and> list_all (\<lambda>(i, r). whole_answers (\<lambda>s. None) r) (rows sample)
   \<and> list_all (\<lambda>(i, r). score_fits (\<lambda>s. None) r) (rows sample)
   \<and> map (\<lambda>(i, r). map r qs) (rows sample)
       = [[Num 10, Num 20, Num 30, Num 40, Num 50], [Num 10, Num 20, Num 30, Num 40, NA],
          [Num 10, NA, NA, Num 40, Num 50]]
   \<and> (\<exists>t'. score_subjects (\<lambda>s. None) 1 sample = (Inr t', t')
         \<and> map (\<lambda>(i, r). r ''score'') (rows t') = [Num 30, Num 25, NA])"
proof -
  from score_subjects_default[OF sample_questions sample_whole] sample_fits
  obtain t' where r: "score_subjects (\<lambda>s. None) 1 sample = (Inr t', t')"
    and rs: "rows t' = map (\<lambda>(i, r). (i, (coerced_row (\<lambda>s. None) qs r)
                 (''score'' := expected_score (\<lambda>s. None) r))) (rows sample)"
    by blast
  have sc: "map (\<lambda>(i, r). expected_score (\<lambda>s. None) r) (rows sample) = [Num 30, Num 25, NA]"
    by code_simp
  have "map (\<lambda>(i, r). r ''score'') (rows t') = map (\<lambda>(i, r). expected_score (\<lambda>s. None) r) (rows sample)"
    by (simp add: rs comp_def case_prod_unfold)
  with sc have "map (\<lambda>(i, r). r ''score'') (rows t') = [Num 30, Num 25, NA]" by simp
  with r have e: "\<exists>t'. score_subjects (\<lambda>s. None) 1 sample = (Inr t', t')
         \<and> map (\<lambda>(i, r). r ''score'') (rows t') = [Num 30, Num 25, NA]"
    by (intro exI[of _ t'] conjI)
  have q: "map (\<lambda>(i, r). map r qs) (rows sample)
       = [[Num 10, Num 20, Num 30, Num 40, Num 50], [Num 10, Num 20, Num 30, Num 40, NA],
          [Num 10, NA, NA, Num 40, Num 50]]"
    by code_simp
  from sample_questions sample_whole sample_fits q e show ?thesis by (intro conjI)
qed

subsection \<open>Filling the missing answers\<close>

lemma has_col_set_at: "has_col (set_at idx col v df) c = has_col df c"
  by (simp add: has_col_def set_at_def)

lemma columns_set_at: "columns (set_at idx col v df) = columns df"
  by (simp add: set_at_def)

lemma fill_upd_step:
  "isnull (r c) \<Longrightarrow> fill_upd cs r (r'(c := question_mean r)) = fill_upd (c # cs) r r'"
  by (auto simp: fill_upd_def fun_eq_iff)

lemma fill_upd_skip: "\<not> isnull (r c) \<Longrightarrow> fill_upd cs r r' = fill_upd (c # cs) r r'"
  by (auto simp: fill_upd_def fun_eq_iff)

lemma fill_questions_result:
  assumes "list_all (has_col df) qs" and "set cols \<subseteq> set qs"
    and "(\<exists>q \<in> set qs. isnull (r q)) \<longrightarrow> \<not> list_ex is_str (map r qs)"
  shows "fill_questions cols idx r df
     = Inr (df\<lparr>rows := map (\<lambda>(i, r'). if i = idx then (i, fill_upd cols r r') else (i, r')) (rows df)\<rparr>)"
  using assms(1,2)
proof (induction cols arbitrary: df)
  case Nil
  have "map (\<lambda>(i, r'). if i = idx then (i, fill_upd [] r r') else (i, r')) xs = xs" for xs
    by (induction xs) (auto simp: fill_upd_def)
  then show ?case by simp
next
  case (Cons c cs)
  from Cons.prems have c: "c \<in> set qs" and cs: "set cs \<subseteq> set qs" by auto
  from Cons.prems(1) c have hc: "has_col df c" by (simp add: list_all_iff)
  show ?case
  proof (cases "isnull (r c)")
    case True
    with c assms(3) have "\<not> list_ex is_str (map r qs)" by blast
    then have m: "row_questions_mean df r = Inr (question_mean r)"
      using Cons.prems(1) by (simp add: row_questions_mean_def series_mean_def question_mean_def)
    let ?df1 = "set_at idx c (question_mean r) df"
    have "list_all (has_col ?df1) qs"
      using Cons.prems(1) by (simp add: list_all_iff has_col_set_at)
    from Cons.IH[OF this cs]
    have "fill_questions cs idx r ?df1
       = Inr (?df1\<lparr>rows := map (\<lambda>(i, r'). if i = idx then (i, fill_upd cs r r') else (i, r')) (rows ?df1)\<rparr>)" .
    also have "?df1\<lparr>rows := map (\<lambda>(i, r'). if i = idx then (i, fill_upd cs r r') else (i, r')) (rows ?df1)\<rparr>
       = df\<lparr>rows := map (\<lambda>(i, r'). if i = idx then (i, fill_upd (c # cs) r r') else (i, r')) (rows df)\<rparr>"
      using True by (auto simp: set_at_def comp_def case_prod_unfold fill_upd_step)
    finally show ?thesis using hc True m by simp
  next
    case False
    have e: "fill_upd (c # cs) r r' = fill_upd cs r r'" for r'
      using False by (rule fill_upd_skip[symmetric])
    from Cons.IH[OF Cons.prems(1) cs] False hc show ?thesis
      by (simp add: e cong: if_cong)
  qed
qed

lemma row_has_null_rows: "row_has_null (df\<lparr>rows := rs\<rparr>) r = row_has_null df r"
  by (simp add: row_has_null_def)

lemma has_col_rows: "has_col (df\<lparr>rows := rs\<rparr>) c = has_col df c"
  by (simp add: has_col_def)

lemma fill_upd_no_null:
  "list_all (has_col df) qs \<Longrightarrow> \<not> row_has_null df r \<Longrightarrow> fill_upd qs r r' = r'"
  by (auto simp: fill_upd_def fun_eq_iff row_has_null_def list_all_iff list_ex_iff has_col_def)

lemma fill_loop_result:
  assumes "list_all (has_col df) qs" and "distinct (map fst rs)"
    and "\<forall>(i, r) \<in> set rs. (\<exists>q \<in> set qs. isnull (r q)) \<longrightarrow> \<not> list_ex is_str (map r qs)"
  shows "fill_loop rs df idxs
     = Inr (df\<lparr>rows := map (\<lambda>(i, r'). case map_of rs i of
                                 None \<Rightarrow> (i, r') | Some r \<Rightarrow> (i, fill_upd qs r r')) (rows df)\<rparr>,
            idxs @ map fst (filter (\<lambda>(i, r). row_has_null df r) rs))"
  using assms
proof (induction rs arbitrary: df idxs)
  case Nil
  then show ?case by (simp add: case_prod_unfold)
next
  case (Cons p rest)
  obtain idx r where p: "p = (idx, r)" by (cases p)
  from Cons.prems(2) p have nidx: "map_of rest idx = None" and d: "distinct (map fst rest)"
    by (auto simp: map_of_eq_None_iff)
  from Cons.prems(3) p have ok: "(\<exists>q \<in> set qs. isnull (r q)) \<longrightarrow> \<not> list_ex is_str (map r qs)"
    and oks: "\<forall>(i, r) \<in> set rest. (\<exists>q \<in> set qs. isnull (r q)) \<longrightarrow> \<not> list_ex is_str (map r qs)"
    by auto
  show ?case
  proof (cases "row_has_null df r")
    case True
    let ?df1 = "df\<lparr>rows := map (\<lambda>(i, r'). if i = idx then (i, fill_upd qs r r') else (i, r')) (rows df)\<rparr>"
    have fq: "fill_questions qs idx r df = Inr ?df1"
      by (rule fill_questions_result[OF Cons.prems(1) subset_refl ok])
    have h1: "list_all (has_col ?df1) qs"
      using Cons.prems(1) by (simp add: list_all_iff has_col_rows)
    have "fill_loop rest ?df1 (idxs @ [idx])
       = Inr (?df1\<lparr>rows := map (\<lambda>(i, r'). case map_of rest i of
                                 None \<Rightarrow> (i, r') | Some r \<Rightarrow> (i, fill_upd qs r r')) (rows ?df1)\<rparr>,
              (idxs @ [idx]) @ map fst (filter (\<lambda>(i, r). row_has_null ?df1 r) rest))"
      by (rule Cons.IH[OF h1 d oks])
    also have "?df1\<lparr>rows := map (\<lambda>(i, r'). case map_of rest i of
                                 None \<Rightarrow> (i, r') | Some r \<Rightarrow> (i, fill_upd qs r r')) (rows ?df1)\<rparr>
       = df\<lparr>rows := map (\<lambda>(i, r'). case map_of (p # rest) i of
                                 None \<Rightarrow> (i, r') | Some r \<Rightarrow> (i, fill_upd qs r r')) (rows df)\<rparr>"
    proof -
      have "map (\<lambda>(i, r'). case map_of rest i of
                  None \<Rightarrow> (i, r') | Some r \<Rightarrow> (i, fill_upd qs r r'))
              (map (\<lambda>(i, r'). if i = idx then (i, fill_upd qs r r') else (i, r')) xs)
          = map (\<lambda>(i, r'). case map_of (p # rest) i of
                  None \<Rightarrow> (i, r') | Some r \<Rightarrow> (i, fill_upd qs r r')) xs" for xs
        by (induction xs) (auto simp: p nidx)
      then show ?thesis by simp
    qed
    finally show ?thesis using True fq by (simp add: p row_has_null_rows)
  next
    case False
    have "map (\<lambda>(i, r'). case map_of (p # rest) i of
                   None \<Rightarrow> (i, r') | Some r \<Rightarrow> (i, fill_upd qs r r')) xs
        = map (\<lambda>(i, r'). case map_of rest i of
                   None \<Rightarrow> (i, r') | Some r \<Rightarrow> (i, fill_upd qs r r')) xs" for xs
      using nidx fill_upd_no_null[OF Cons.prems(1) False]
      by (induction xs) (auto simp: p)
    with Cons.IH[OF Cons.prems(1) d oks, of idxs] False show ?thesis
      by (simp add: p)
  qed
qed

lemma fill_upd_self: "fill_upd qs r r = filled_row r"
  by (simp add: fill_upd_def filled_row_def)

lemma fill_na_result:
  assumes "list_all (has_col t) qs" and "distinct (map fst (rows t))"
    and "\<forall>(i, r) \<in> set (rows t). (\<exists>q \<in> set qs. isnull (r q)) \<longrightarrow> \<not> list_ex is_str (map r qs)"
  shows "fill_na_with_mean t
     = (Inr (t\<lparr>rows := map (\<lambda>(i, r). (i, filled_row r)) (rows t)\<rparr>,
             map fst (filter (\<lambda>(i, r). row_has_null t r) (rows t))), t)"
proof -
  have "map (\<lambda>(i, r'). case map_of (rows t) i of
                   None \<Rightarrow> (i, r') | Some r \<Rightarrow> (i, fill_upd qs r r')) (rows t)
      = map (\<lambda>(i, r). (i, filled_row r)) (rows t)"
    using assms(2) by (intro map_cong refl) (auto simp: fill_upd_self)
  then show ?thesis
    by (simp add: fill_na_with_mean_def fill_loop_result[OF assms])
qed

lemma fill_questions_returns:
  assumes "fill_questions cols idx r df = Inr df'" and "\<exists>c \<in> set cols. isnull (r c)"
    and "list_all (has_col df) cols"
  shows "\<not> list_ex is_str (map r qs)"
  using assms
proof (induction cols arbitrary: df)
  case Nil
  then show ?case by simp
next
  case (Cons c cs)
  from Cons.prems(3) have hc: "has_col df c" and hcs: "list_all (has_col df) cs" by simp_all
  show ?case
  proof (cases "isnull (r c)")
    case True
    with Cons.prems(1) hc obtain m where "row_questions_mean df r = Inr m"
      by (auto split: sum.splits)
    then show ?thesis
      by (auto simp: row_questions_mean_def series_mean_def split: if_splits)
  next
    case False
    with Cons.prems(1) hc have 1: "fill_questions cs idx r df = Inr df'" by simp
    from False Cons.prems(2) have 2: "\<exists>c \<in> set cs. isnull (r c)" by auto
    from Cons.IH[OF 1 2 hcs] show ?thesis .
  qed
qed

lemma row_has_null_question:
  "list_all (has_col df) qs \<Longrightarrow> \<exists>q \<in> set qs. isnull (r q) \<Longrightarrow> row_has_null df r"
  by (auto simp: row_has_null_def list_all_iff list_ex_iff has_col_def)

lemma fill_questions_columns:
  "fill_questions cols idx r df = Inr df' \<Longrightarrow> columns df' = columns df"
proof (induction cols arbitrary: df)
  case Nil
  then show ?case by simp
next
  case (Cons c cs)
  show ?case
  proof (cases "has_col df c \<and> isnull (r c)")
    case True
    with Cons.prems obtain m where "fill_questions cs idx r (set_at idx c m df) = Inr df'"
      by (auto split: sum.splits)
    from Cons.IH[OF this] show ?thesis by (simp add: columns_set_at)
  next
    case False
    with Cons.prems have "fill_questions cs idx r df = Inr df'"
      by (auto split: if_splits)
    from Cons.IH[OF this] show ?thesis .
  qed
qed

lemma fill_loop_returns:
  assumes "fill_loop rs df idxs = Inr res" and "list_all (has_col df) qs"
  shows "\<forall>(i, r) \<in> set rs. (\<exists>q \<in> set qs. isnull (r q)) \<longrightarrow> \<not> list_ex is_str (map r qs)"
  using assms
proof (induction rs arbitrary: df idxs)
  case Nil
  then show ?case by simp
next
  case (Cons p rest)
  obtain idx r where p: "p = (idx, r)" by (cases p)
  show ?case
  proof (cases "row_has_null df r")
    case True
    with Cons.prems(1) p obtain df1 where f: "fill_questions qs idx r df = Inr df1"
      and l: "fill_loop rest df1 (idxs @ [idx]) = Inr res"
      by (auto split: sum.splits)
    have "list_all (has_col df1) qs"
      using Cons.prems(2) fill_questions_columns[OF f] by (simp add: has_col_def list_all_iff)
    from Cons.IH[OF l this]
    have rest: "\<forall>(i, r) \<in> set rest. (\<exists>q \<in> set qs. isnull (r q)) \<longrightarrow> \<not> list_ex is_str (map r qs)" .
    have "(\<exists>q \<in> set qs. isnull (r q)) \<longrightarrow> \<not> list_ex is_str (map r qs)"
      using fill_questions_returns[OF f _ Cons.prems(2)] by blast
    with rest p show ?thesis by simp
  next
    case False
    with Cons.prems(1) p have l: "fill_loop rest df idxs = Inr res" by simp
    from Cons.IH[OF l Cons.prems(2)]
    have rest: "\<forall>(i, r) \<in> set rest. (\<exists>q \<in> set qs. isnull (r q)) \<longrightarrow> \<not> list_ex is_str (map r qs)" .
    from False row_has_null_question[OF Cons.prems(2), of r]
    have "\<not> (\<exists>q \<in> set qs. isnull (r q))" by blast
    with rest p show ?thesis by simp
  qed
qed

lemma fill_na_returns:
  assumes "fst (fill_na_with_mean t) = Inr res" and "list_all (has_col t) qs"
  shows "\<forall>(i, r) \<in> set (rows t). (\<exists>q \<in> set qs. isnull (r q)) \<longrightarrow> \<not> list_ex is_str (map r qs)"
  using assms by (simp add: fill_na_with_mean_def fill_loop_returns)

lemma snd_fill_na: "snd (fill_na_with_mean t) = t"
  by (simp add: fill_na_with_mean_def)

lemma whole_cells_no_text: "list_all whole_cell cs \<Longrightarrow> \<not> list_ex is_str cs"
  by (induction cs) (auto simp: whole_cell_def split: cell.splits)

lemma rounded_mean_exact: "rounded_mean xs (mean_cell xs)"
  by (simp add: rounded_mean_def mean_cell_def exact_mean_def)

lemma filled_row_cell:
  "(c \<in> set qs \<and> isnull (r c) \<longrightarrow> rounded_mean (num_values (map r qs)) (filled_row r c))
   \<and> (\<not> (c \<in> set qs \<and> isnull (r c)) \<longrightarrow> filled_row r c = r c)"
  by (simp add: filled_row_def question_mean_def rounded_mean_exact)

text \<open>
  Claim C7, as the code has it. \<^verbatim>\<open>fill_na_with_mean\<close> never changes the stored table.
  Take a table with the five question columns and no index label twice, whose answers
  are whole answers, so that none of them is a text. Then the call returns a copy with
  the columns and the row labels of the stored table. In every row of the copy each
  missing answer is replaced by the mean of the answers the row itself has: the exact
  mean when one, two or four answers are there, so that a row with one missing answer
  gets the sum of the other four divided by four, and the mean up to one rounding when
  three are. A row with no answer at all keeps its missing answers, and no exception
  is raised for it. Every other cell of the copy is the cell of the stored table.
\<close>

theorem fill_na_with_mean_rows:
  assumes "list_all (has_col t) qs" and "distinct (map fst (rows t))"
    and "list_all (\<lambda>(i, r). list_all whole_cell (map r qs)) (rows t)"
  shows "snd (fill_na_with_mean t) = t
     \<and> (\<exists>data_filled row_indices.
          fst (fill_na_with_mean t) = Inr (data_filled, row_indices)
          \<and> columns data_filled = columns t
          \<and> map fst (rows data_filled) = map fst (rows t)
          \<and> (\<forall>k < length (rows t). \<forall>c.
                (c \<in> set qs \<and> isnull (snd (rows t ! k) c) \<longrightarrow>
                   rounded_mean (num_values (map (snd (rows t ! k)) qs))
                     (snd (rows data_filled ! k) c))
              \<and> (\<not> (c \<in> set qs \<and> isnull (snd (rows t ! k) c)) \<longrightarrow>
                   snd (rows data_filled ! k) c = snd (rows t ! k) c)))"
proof (intro conjI)
  show "snd (fill_na_with_mean t) = t" by (rule snd_fill_na)
  let ?f = "t\<lparr>rows := map (\<lambda>(i, r). (i, filled_row r)) (rows t)\<rparr>"
  let ?is = "map fst (filter (\<lambda>(i, r). row_has_null t r) (rows t))"
  have ok: "\<forall>(i, r) \<in> set (rows t). (\<exists>q \<in> set qs. isnull (r q)) \<longrightarrow> \<not> list_ex is_str (map r qs)"
  proof (clarify)
    fix i r assume "(i, r) \<in> set (rows t)" and s: "list_ex is_str (map r qs)"
    with assms(3) have "list_all whole_cell (map r qs)" by (auto simp: list_all_iff)
    from whole_cells_no_text[OF this] s show False by simp
  qed
  have 1: "fst (fill_na_with_mean t) = Inr (?f, ?is)"
    by (simp add: fill_na_result[OF assms(1,2) ok])
  have 2: "columns ?f = columns t" by simp
  have 3: "map fst (rows ?f) = map fst (rows t)"
    by (simp add: comp_def case_prod_unfold)
  have 4: "\<forall>k < length (rows t). \<forall>c.
                (c \<in> set qs \<and> isnull (snd (rows t ! k) c) \<longrightarrow>
                   rounded_mean (num_values (map (snd (rows t ! k)) qs))
                     (snd (rows ?f ! k) c))
              \<and> (\<not> (c \<in> set qs \<and> isnull (snd (rows t ! k) c)) \<longrightarrow>
                   snd (rows ?f ! k) c = snd (rows t ! k) c)"
  proof (intro allI impI)
    fix k c assume k: "k < length (rows t)"
    then have "snd (rows ?f ! k) = filled_row (snd (rows t ! k))"
      by (simp add: case_prod_unfold)
    then show "(c \<in> set qs \<and> isnull (snd (rows t ! k) c) \<longrightarrow>
                   rounded_mean (num_values (map (snd (rows t ! k)) qs))
                     (snd (rows ?f ! k) c))
              \<and> (\<not> (c \<in> set qs \<and> isnull (snd (rows t ! k) c)) \<longrightarrow>
                   snd (rows ?f ! k) c = snd (rows t ! k) c)"
      using filled_row_cell[of c "snd (rows t ! k)"] by simp
  qed
  from 1 2 3 4 show "\<exists>data_filled row_indices.
          fst (fill_na_with_mean t) = Inr (data_filled, row_indices)
          \<and> columns data_filled = columns t
          \<and> map fst (rows data_filled) = map fst (rows t)
          \<and> (\<forall>k < length (rows t). \<forall>c.
                (c \<in> set qs \<and> isnull (snd (rows t ! k) c) \<longrightarrow>
                   rounded_mean (num_values (map (snd (rows t ! k)) qs))
                     (snd (rows data_filled ! k) c))
              \<and> (\<not> (c \<in> set qs \<and> isnull (snd (rows t ! k) c)) \<longrightarrow>
                   snd (rows data_filled ! k) c = snd (rows t ! k) c))"
    by (intro exI[of _ ?f] exI[of _ ?is] conjI)
qed

text \<open>
  A row with the text answer \<^verbatim>\<open>n/a\<close> and a missing answer, in a table with the five
  question columns and distinct labels: the mean of the row raises \<^verbatim>\<open>TypeError\<close>, and
  no copy is returned.
\<close>

theorem fill_na_with_mean_rows_counterexample:
  "list_all (has_col text_answer) qs \<and> distinct (map fst (rows text_answer))
   \<and> map (\<lambda>(i, r). map r qs) (rows text_answer) = [[Str ''n/a'', NA, Num 5, Num 5, Num 5]]
   \<and> (case fst (fill_na_with_mean text_answer) of Inl e \<Rightarrow> e = TypeError | Inr x \<Rightarrow> False)"
  by code_simp

lemma gaps_whole:
  "list_all (has_col gaps) qs" "distinct (map fst (rows gaps))"
  "list_all (\<lambda>(i, r). list_all whole_cell (map r qs)) (rows gaps)"
  by code_simp+

lemma gaps_rows:
  "length (rows gaps) = 2"
  "map (snd (rows gaps ! 0)) qs = [Num 10, Num 20, Num 30, Num 40, NA]"
  "map (snd (rows gaps ! 1)) qs = [NA, NA, NA, NA, NA]"
  by code_simp+

theorem fill_na_with_mean_rows_witness:
  "list_all (has_col gaps) qs \<and> distinct (map fst (rows gaps))
   \<and> list_all (\<lambda>(i, r). list_all whole_cell (map r qs)) (rows gaps)
   \<and> map (snd (rows gaps ! 0)) qs = [Num 10, Num 20, Num 30, Num 40, NA]
   \<and> map (snd (rows gaps ! 1)) qs = [NA, NA, NA, NA, NA]
   \<and> (\<exists>data_filled row_indices. fst (fill_na_with_mean gaps) = Inr (data_filled, row_indices)
        \<and> snd (rows data_filled ! 0) ''q5'' = Num 25
        \<and> snd (rows data_filled ! 0) ''q1'' = Num 10
        \<and> snd (rows data_filled ! 1) ''q1'' = NA)"
proof -
  from fill_na_with_mean_rows[OF gaps_whole]
  obtain data_filled row_indices
    where r: "fst (fill_na_with_mean gaps) = Inr (data_filled, row_indices)"
      and p: "\<forall>k < length (rows gaps). \<forall>c.
                (c \<in> set qs \<and> isnull (snd (rows gaps ! k) c) \<longrightarrow>
                   rounded_mean (num_values (map (snd (rows gaps ! k)) qs))
                     (snd (rows data_filled ! k) c))
              \<and> (\<not> (c \<in> set qs \<and> isnull (snd (rows gaps ! k) c)) \<longrightarrow>
                   snd (rows data_filled ! k) c = snd (rows gaps ! k) c)"
    by blast
  have c0: "snd (rows gaps ! 0) ''q5'' = NA" "snd (rows gaps ! 0) ''q1'' = Num 10"
    and c1: "snd (rows gaps ! 1) ''q1'' = NA"
    using gaps_rows(2,3) by (simp_all add: qs_def)
  have "rounded_mean [10, 20, 30, 40] (snd (rows data_filled ! 0) ''q5'')"
    using p[rule_format, of 0 "''q5''"] c0 gaps_rows by (simp add: qs_def)
  then have 1: "snd (rows data_filled ! 0) ''q5'' = Num 25"
    by (cases "snd (rows data_filled ! 0) ''q5''") (simp_all add: rounded_mean_def exact_mean_def)
  have 2: "snd (rows data_filled ! 0) ''q1'' = Num 10"
    using p[rule_format, of 0 "''q1''"] c0 gaps_rows(1) by simp
  have "rounded_mean [] (snd (rows data_filled ! 1) ''q1'')"
    using p[rule_format, of 1 "''q1''"] c1 gaps_rows by (simp add: qs_def)
  then have 3: "snd (rows data_filled ! 1) ''q1'' = NA"
    by (cases "snd (rows data_filled ! 1) ''q1''") (simp_all add: rounded_mean_def)
  from r 1 2 3 have "\<exists>data_filled row_indices. fst (fill_na_with_mean gaps) = Inr (data_filled, row_indices)
        \<and> snd (rows data_filled ! 0) ''q5'' = Num 25
        \<and> snd (rows data_filled ! 0) ''q1'' = Num 10
        \<and> snd (rows data_filled ! 1) ''q1'' = NA"
    by (intro exI[of _ data_filled] exI[of _ row_indices] conjI)
  with gaps_whole gaps_rows(2,3) show ?thesis by (intro conjI)
qed

text \<open>
  Claim C3 at a row that answered every question and has no gender: the row's index is
  in the returned list, because \<^verbatim>\<open>row.isnull().any()\<close> looks at every column of the row.
\<close>

theorem fill_na_index_of_row_without_gender:
  "map (\<lambda>(i, r). map r qs) (rows no_gender) = [[Num 10, Num 10, Num 10, Num 10, Num 10]]
   \<and> (case fst (fill_na_with_mean no_gender) of
        Inl e \<Rightarrow> False
      | Inr (data_filled, row_indices) \<Rightarrow> row_indices = [0])"
  by code_simp

subsection \<open>What the methods leave of the stored table\<close>






















subsection \<open>When the whole script runs through\<close>









subsection \<open>The row count through the script\<close>





subsection \<open>Row content and exceptions\<close>







end
